theory Spec2Isabelle
  imports Complex_Main
begin

section \<open>Strings as the controller sees them\<close>

text \<open>
  The controller (class \<open>HDHomeRunController\<close>) talks to the tuner through the text that
  \<open>hdhomerun_config\<close> prints. A string is a list of characters; the characters are the
  code units below 256, which is all the vendor tool prints.

  \<open>is_space\<close> is the class \<open>\s\<close> of the regular expressions and the set that
  \<open>String.prototype.trim\<close> strips (restricted to code units below 256): tab, line feed,
  vertical tab, form feed, carriage return, space and the no-break space.
  \<open>is_digit\<close> is the class \<open>\d\<close>.
\<close>

definition is_space :: "char \<Rightarrow> bool" where
  "is_space c = (of_char c \<in> {9, 10, 11, 12, 13, 32, 160 :: nat})"

definition is_digit :: "char \<Rightarrow> bool" where
  "is_digit c = (48 \<le> (of_char c :: nat) \<and> (of_char c :: nat) \<le> 57)"

definition non_space :: "char \<Rightarrow> bool" where
  "non_space c = (\<not> is_space c)"

definition trim :: "string \<Rightarrow> string" where
  "trim s = rev (dropWhile is_space (rev (dropWhile is_space s)))"

text \<open>
  \<open>parseInt\<close> is only ever applied to a capture of \<open>(\d+)\<close>, a non-empty run of decimal
  digits, which it reads in base ten. The value below is the integer the digits denote;
  the JavaScript number is that integer whenever it is below \<open>2^53\<close>.
\<close>

definition digit_val :: "char \<Rightarrow> nat" where
  "digit_val c = of_char c - 48"

definition parseInt :: "string \<Rightarrow> nat" where
  "parseInt ds = foldl (\<lambda>n c. 10 * n + digit_val c) 0 ds"

text \<open>
  \<open>match_key key C s\<close> is \<open>s.match(/key(C+)/)\<close> reduced to its first capture: the search
  runs over the start positions from the left; at a position the literal \<open>key\<close> must be
  followed by at least one character of the class \<open>C\<close>, and the greedy \<open>+\<close> captures the
  whole run. \<open>None\<close> is the \<open>null\<close> of a failed match. The seven status patterns
  \<open>/ch=([^\s]+)/\<close>, \<open>/lock=([^\s]+)/\<close>, \<open>/ss=(\d+)/\<close>, ... all have this shape.
\<close>

fun match_key :: "string \<Rightarrow> (char \<Rightarrow> bool) \<Rightarrow> string \<Rightarrow> string option" where
  "match_key key C [] = None"
| "match_key key C (c # cs) =
     (if take (length key) (c # cs) = key \<and> takeWhile C (drop (length key) (c # cs)) \<noteq> []
      then Some (takeWhile C (drop (length key) (c # cs)))
      else match_key key C cs)"

section \<open>Tuner status\<close>

text \<open>
  The status object built by \<open>getTunerStatus\<close>. A JavaScript object has a key or does not
  have it: an absent key is \<open>None\<close>. \<open>lock\<close> is assigned a boolean on every path that
  returns an object.
\<close>

record tuner_status =
  channel :: "string option"
  lock :: bool
  ss :: "nat option"
  snq :: "nat option"
  seq :: "nat option"
  bps :: "nat option"
  pps :: "nat option"
  ssDb :: "rat option"
  snrDb :: "rat option"
  debugRaw :: "string option"

text \<open>
  The loop over \<open>patterns\<close> followed by \<open>status.lock = status.lock !== undefined\<close>
  (lines 385 to 404): the object before the debug output is looked at.
\<close>

definition parseStatusLine :: "string \<Rightarrow> tuner_status" where
  "parseStatusLine statusLine =
     \<lparr> channel = match_key ''ch='' non_space statusLine,
       lock = (match_key ''lock='' non_space statusLine \<noteq> None),
       ss = map_option parseInt (match_key ''ss='' is_digit statusLine),
       snq = map_option parseInt (match_key ''snq='' is_digit statusLine),
       seq = map_option parseInt (match_key ''seq='' is_digit statusLine),
       bps = map_option parseInt (match_key ''bps='' is_digit statusLine),
       pps = map_option parseInt (match_key ''pps='' is_digit statusLine),
       ssDb = None, snrDb = None, debugRaw = None \<rparr>"

text \<open>
  \<open>/dbg=(\d+)-(\d+)\/(-?\d+)/\<close> at one start position. Each greedy digit run is followed
  by a character that is not a digit, so only the whole run can match; after the slash
  an optional minus sign must be followed by at least one digit.
\<close>

definition match_dbg_at :: "string \<Rightarrow> (string \<times> string \<times> string) option" where
  "match_dbg_at s =
     (if take 4 s \<noteq> ''dbg='' then None
      else let r1 = drop 4 s; d1 = takeWhile is_digit r1; r2 = dropWhile is_digit r1 in
        if d1 = [] \<or> take 1 r2 \<noteq> ''-'' then None
        else let r3 = drop 1 r2; d2 = takeWhile is_digit r3; r4 = dropWhile is_digit r3 in
          if d2 = [] \<or> take 1 r4 \<noteq> ''/'' then None
          else let r5 = drop 1 r4;
                   sign = (if take 1 r5 = ''-'' then ''-'' else []);
                   d3 = takeWhile is_digit (drop (length sign) r5) in
            if d3 = [] then None else Some (d1, d2, sign @ d3))"

fun match_dbg :: "string \<Rightarrow> (string \<times> string \<times> string) option" where
  "match_dbg [] = None"
| "match_dbg (c # cs) =
     (case match_dbg_at (c # cs) of Some m \<Rightarrow> Some m | None \<Rightarrow> match_dbg cs)"

text \<open>
  \<open>Math.round\<close> rounds to the nearest integer, a tie towards plus infinity.

  \<open>estimate\<close> is the estimator of lines 413 to 425 (the spec's \<open>SignalEstimator\<close>), on
  the two raw counters. The numbers are rationals: for the signal every intermediate
  value is a multiple of one half and is computed exactly in binary floating point; for
  the signal-to-noise ratio the rational is the decimal that the rounded product denotes.
\<close>

definition Math_round :: "rat \<Rightarrow> int" where
  "Math_round x = \<lfloor>x + 1 / 2\<rfloor>"

definition estimatedSignalDbm :: "nat \<Rightarrow> rat" where
  "estimatedSignalDbm signalRaw =
     (if signalRaw \<ge> 80 then - 40 - (100 - of_nat signalRaw) * (1 / 2)
      else if signalRaw \<ge> 60 then - 50 - (80 - of_nat signalRaw) * (1 / 2)
      else if signalRaw \<ge> 20 then - 60 - (60 - of_nat signalRaw) * (1 / 2)
      else - 80 - (20 - of_nat signalRaw) * (1 / 2))"

definition estimatedSnrDb :: "nat \<Rightarrow> rat" where
  "estimatedSnrDb snrRaw = of_nat snrRaw * (31 / 100)"

definition estimate :: "nat \<Rightarrow> nat \<Rightarrow> rat \<times> rat" where
  "estimate signalRaw snrRaw =
     (of_int (Math_round (estimatedSignalDbm signalRaw * 10)) / 10,
      if snrRaw > 0 then of_int (Math_round (estimatedSnrDb snrRaw * 10)) / 10 else 0)"

text \<open>The decimal rendering of a number in a template literal.\<close>

fun string_of_nat :: "nat \<Rightarrow> string" where
  "string_of_nat n =
     (if 10 \<le> n then string_of_nat (n div 10) else []) @ [char_of (n mod 10 + 48)]"

declare string_of_nat.simps [simp del]

text \<open>
  \<open>getStatusCommand\<close> runs \<open>hdhomerun_config <deviceId> get /tuner<tuner>/<command>\<close>.
  The device's answers are the parameter \<open>exec\<close>: \<open>exec deviceId tuner command\<close> is the
  standard output of that command, or \<open>None\<close> when the callback receives an error.
\<close>

type_synonym tuner_exec = "string \<Rightarrow> nat \<Rightarrow> string \<Rightarrow> string option"

definition getStatusCommand :: "tuner_exec \<Rightarrow> string \<Rightarrow> nat \<Rightarrow> string \<Rightarrow> string option" where
  "getStatusCommand exec deviceId tuner command =
     (case exec deviceId tuner command of None \<Rightarrow> None | Some stdout \<Rightarrow> Some (trim stdout))"

text \<open>A string is falsy exactly when it is \<open>null\<close> or empty.\<close>

definition falsy :: "string option \<Rightarrow> bool" where
  "falsy r = (r = None \<or> r = Some [])"

definition addDebug :: "string option \<Rightarrow> tuner_status \<Rightarrow> tuner_status" where
  "addDebug debugResult status =
     (if falsy debugResult then status
      else case match_dbg (the debugResult) of
        None \<Rightarrow> status
      | Some (g1, g2, g3) \<Rightarrow>
          let signalRaw = parseInt g1; snrRaw = parseInt g2 in
          status \<lparr> ssDb := Some (fst (estimate signalRaw snrRaw)),
                   snrDb := Some (snd (estimate signalRaw snrRaw)),
                   debugRaw := Some (string_of_nat signalRaw @ ''-'' @ string_of_nat snrRaw
                                      @ ''/'' @ g3) \<rparr>)"

text \<open>
  \<open>getTunerStatus\<close> (lines 363 to 437). \<open>None\<close> is the resolved \<open>null\<close>. The promise
  never rejects: every path resolves.
\<close>

definition getTunerStatus :: "tuner_exec \<Rightarrow> string \<Rightarrow> nat \<Rightarrow> tuner_status option" where
  "getTunerStatus exec deviceId tuner =
     (let statusResult = getStatusCommand exec deviceId tuner ''status'';
          debugResult = getStatusCommand exec deviceId tuner ''debug'' in
      if falsy statusResult then None
      else let statusLine = trim (the statusResult) in
        if statusLine = ''none''
        then Some \<lparr> channel = Some ''none'', lock = False, ss = None, snq = None, seq = None,
                    bps = None, pps = None, ssDb = None, snrDb = None, debugRaw = None \<rparr>
        else Some (addDebug debugResult (parseStatusLine statusLine)))"

section \<open>Devices and discovery\<close>

text \<open>
  A device object \<open>{id, ip, name, online}\<close>. The field \<open>id\<close> is \<open>id_dev\<close> here.
\<close>

record hd_device =
  id_dev :: string
  ip :: string
  name :: string
  online :: bool

text \<open>An entry of \<open>deviceNameCache\<close>: \<open>{device, timestamp}\<close>, the time in milliseconds.\<close>

record cache_entry =
  device :: hd_device
  timestamp :: int

text \<open>
  The fields of the controller that the constructor sets. \<open>monitoringIntervals\<close> maps a
  socket id to the handle that \<open>setInterval\<close> returned; \<open>httpDiscoveryCache\<close> is
  \<open>None\<close> for \<open>null\<close>.
\<close>

record controller =
  devices :: "hd_device list"
  activeDevice :: "string option"
  activeTuner :: nat
  monitoringIntervals :: "string \<rightharpoonup> nat"
  deviceNameCache :: "string \<rightharpoonup> cache_entry"
  httpDiscoveryCache :: "hd_device list option"

definition cacheTTL :: int where
  "cacheTTL = 5 * 60 * 1000"

definition new_controller :: controller where
  "new_controller =
     \<lparr> devices = [], activeDevice = None, activeTuner = 0, monitoringIntervals = Map.empty,
       deviceNameCache = Map.empty, httpDiscoveryCache = None \<rparr>"

text \<open>
  An element of the array that the vendor's discovery API returns, after \<open>JSON.parse\<close>:
  \<open>DeviceID\<close> is absent on a storage-only entry, \<open>LocalIP\<close> is the address the
  entry reports. Both are strings in the vendor's format.
\<close>

record cloud_entry =
  DeviceID :: "string option"
  LocalIP :: string

text \<open>
  What the world outside answers during one discovery pass:
  \<^item> \<open>udp_stdout\<close>: the output of \<open>hdhomerun_config discover\<close>, \<open>None\<close> on an error;
  \<^item> \<open>cloud_response\<close>: the parsed array of the HTTPS request, \<open>None\<close> when the request
    fails, times out, or the body does not parse to an array of objects;
  \<^item> \<open>hwmodel host\<close>: the output of \<open>hdhomerun_config <host> get /sys/hwmodel\<close>,
    \<open>None\<close> on an error;
  \<^item> \<open>discover_stdout host\<close>: the output of \<open>hdhomerun_config discover <host>\<close>
    (empty when there is none; the callback ignores the error);
  \<^item> \<open>now\<close> and \<open>now_stored\<close>: \<open>Date.now()\<close> when the cache is read and when an entry
    is written;
  \<^item> the two environment variables, \<open>None\<close> when unset.
\<close>

record discovery_env =
  udp_stdout :: "string option"
  cloud_response :: "cloud_entry list option"
  hwmodel :: "string \<Rightarrow> string option"
  discover_stdout :: "string \<Rightarrow> string"
  now :: int
  now_stored :: int
  HDHOMERUN_DISABLE_DISCOVERY :: "string option"
  HDHOMERUN_DEVICES :: "string option"

text \<open>\<open>s.split(sep)\<close> for a one-character separator: the empty string gives one empty piece.\<close>

fun split_on :: "char \<Rightarrow> string \<Rightarrow> string list" where
  "split_on sep [] = [[]]"
| "split_on sep (c # cs) =
     (if c = sep then [] # split_on sep cs
      else case split_on sep cs of [] \<Rightarrow> [[c]] | w # ws \<Rightarrow> (c # w) # ws)"

definition starts_with :: "string \<Rightarrow> string \<Rightarrow> bool" where
  "starts_with lit s = (take (length lit) s = lit)"

text \<open>
  \<open>/hdhomerun device ([A-F0-9-]+) found at ([0-9.]+)/\<close>: the two captures of the
  leftmost match. Neither class contains the space, so each greedy run is the whole run.
\<close>

definition is_id_char :: "char \<Rightarrow> bool" where
  "is_id_char c = (is_digit c \<or> (65 \<le> (of_char c :: nat) \<and> (of_char c :: nat) \<le> 70) \<or> c = CHR ''-'')"

definition is_ip_char :: "char \<Rightarrow> bool" where
  "is_ip_char c = (is_digit c \<or> c = CHR ''.'')"

definition match_found_at :: "string \<Rightarrow> (string \<times> string) option" where
  "match_found_at s =
     (if \<not> starts_with ''hdhomerun device '' s then None
      else let r1 = drop (length ''hdhomerun device '') s;
               g1 = takeWhile is_id_char r1; r2 = dropWhile is_id_char r1 in
        if g1 = [] \<or> \<not> starts_with '' found at '' r2 then None
        else let g2 = takeWhile is_ip_char (drop (length '' found at '') r2) in
          if g2 = [] then None else Some (g1, g2))"

fun match_found :: "string \<Rightarrow> (string \<times> string) option" where
  "match_found [] = None"
| "match_found (c # cs) =
     (case match_found_at (c # cs) of Some m \<Rightarrow> Some m | None \<Rightarrow> match_found cs)"

definition getDeviceModel :: "discovery_env \<Rightarrow> string \<Rightarrow> string option" where
  "getDeviceModel env host =
     (case hwmodel env host of
        None \<Rightarrow> None
      | Some stdout \<Rightarrow> if trim stdout = [] then None else Some (trim stdout))"

definition tuner_name :: "string \<Rightarrow> string option \<Rightarrow> string" where
  "tuner_name deviceId model =
     (case model of
        Some m \<Rightarrow> ''HDHomeRun '' @ deviceId @ '' ('' @ m @ '')''
      | None \<Rightarrow> ''HDHomeRun '' @ deviceId)"

text \<open>
  \<open>udpDiscoverDevices\<close> (lines 103 to 140): the lines of the output that match, first
  occurrence of each device id, each resolved to a device.
\<close>

fun discovered :: "string list \<Rightarrow> string set \<Rightarrow> (string \<times> string) list" where
  "discovered [] deviceSet = []"
| "discovered (line # lines) deviceSet =
     (case match_found line of
        None \<Rightarrow> discovered lines deviceSet
      | Some (deviceId, deviceIp) \<Rightarrow>
          if deviceId \<notin> deviceSet
          then (deviceId, deviceIp) # discovered lines (insert deviceId deviceSet)
          else discovered lines deviceSet)"

definition udpDiscoverDevices :: "discovery_env \<Rightarrow> hd_device list" where
  "udpDiscoverDevices env =
     (case udp_stdout env of
        None \<Rightarrow> []
      | Some stdout \<Rightarrow>
          map (\<lambda>(deviceId, deviceIp).
                 \<lparr> id_dev = deviceId, ip = deviceIp,
                   name = tuner_name deviceId (getDeviceModel env deviceIp), online = True \<rparr>)
              (discovered (filter (\<lambda>line. trim line \<noteq> []) (split_on CHR 0x0A stdout)) {}))"

text \<open>
  \<open>httpDiscoverDevices\<close> (lines 142 to 185). \<open>e.DeviceID\<close> is truthy when the key is
  there and not empty.
\<close>

definition httpDiscoverDevices :: "discovery_env \<Rightarrow> hd_device list" where
  "httpDiscoverDevices env =
     (case cloud_response env of
        None \<Rightarrow> []
      | Some entries \<Rightarrow>
          map (\<lambda>entry.
                 let ip_addr = LocalIP entry; deviceId = the (DeviceID entry) in
                 \<lparr> id_dev = ip_addr, ip = ip_addr,
                   name = tuner_name deviceId (getDeviceModel env ip_addr), online = True \<rparr>)
              (filter (\<lambda>e. \<not> falsy (DeviceID e)) entries))"

text \<open>
  \<open>autoDiscoverDevices\<close> (lines 77 to 101). The third component counts the calls of
  \<open>httpDiscoverDevices\<close>, that is the HTTPS requests sent.
\<close>

definition autoDiscoverDevices ::
  "discovery_env \<Rightarrow> bool \<Rightarrow> controller \<Rightarrow> hd_device list \<times> controller \<times> nat" where
  "autoDiscoverDevices env forceRefresh s =
     (let udpDevices = udpDiscoverDevices env in
      if length udpDevices > 0 then (udpDevices, s, 0)
      else if \<not> forceRefresh \<and> httpDiscoveryCache s \<noteq> None
      then (the (httpDiscoveryCache s), s, 0)
      else let httpDevices = httpDiscoverDevices env in
        (httpDevices, s \<lparr> httpDiscoveryCache := Some httpDevices \<rparr>, 1))"

text \<open>
  \<open>getDeviceByHost\<close> (lines 199 to 249): the device it resolves to and the controller
  after it. The promise never rejects.
\<close>

definition getDeviceByHost :: "discovery_env \<Rightarrow> string \<Rightarrow> controller \<Rightarrow> hd_device \<times> controller" where
  "getDeviceByHost env host s =
     (let cached = deviceNameCache s host in
      if cached \<noteq> None \<and> now env - timestamp (the cached) < cacheTTL
      then (device (the cached), s)
      else case hwmodel env host of
        None \<Rightarrow>
          let offlineDevice = \<lparr> id_dev = host, ip = host,
                                name = ''HDHomeRun ('' @ host @ '')'', online = False \<rparr> in
          (offlineDevice,
           s \<lparr> deviceNameCache := (deviceNameCache s)
                  (host \<mapsto> \<lparr> device = offlineDevice, timestamp = now_stored env \<rparr>) \<rparr>)
      | Some stdout \<Rightarrow>
          let model = (if trim stdout = [] then ''Unknown'' else trim stdout);
              deviceId = map_option fst (match_found (discover_stdout env host));
              dev = \<lparr> id_dev = host, ip = host,
                      name = (if \<not> falsy deviceId
                              then ''HDHomeRun '' @ the deviceId @ '' ('' @ model @ '')''
                              else ''HDHomeRun '' @ model @ '' ('' @ host @ '')''),
                      online = True \<rparr> in
          (dev,
           s \<lparr> deviceNameCache := (deviceNameCache s)
                  (host \<mapsto> \<lparr> device = dev, timestamp = now_stored env \<rparr>) \<rparr>))"

text \<open>
  \<open>Promise.all(manualHosts.map(host => this.getDeviceByHost(host)))\<close>: the results in the
  order of the hosts. In the program every call reads the cache before any of them
  writes it. A call writes only the entry of its own host, and a host gives the same
  answers throughout one pass, so taking the calls one after the other resolves to the
  same devices.
\<close>

fun getDevicesByHost :: "discovery_env \<Rightarrow> string list \<Rightarrow> controller \<Rightarrow> hd_device list \<times> controller" where
  "getDevicesByHost env [] s = ([], s)"
| "getDevicesByHost env (host # hosts) s =
     (case getDeviceByHost env host s of
        (d, s') \<Rightarrow> (case getDevicesByHost env hosts s' of (ds, s'') \<Rightarrow> (d # ds, s'')))"

text \<open>
  The body of the two \<open>forEach\<close> loops of \<open>discoverDevices\<close>: a device is pushed when its
  id is not in \<open>deviceSet\<close> yet.
\<close>

definition addDevice ::
  "hd_device \<Rightarrow> string set \<times> hd_device list \<Rightarrow> string set \<times> hd_device list" where
  "addDevice d acc =
     (case acc of (deviceSet, devs) \<Rightarrow>
        if id_dev d \<notin> deviceSet then (insert (id_dev d) deviceSet, devs @ [d])
        else (deviceSet, devs))"

definition manualHosts :: "discovery_env \<Rightarrow> string list" where
  "manualHosts env =
     (let manualDevices = (if falsy (HDHOMERUN_DEVICES env) then [] else the (HDHOMERUN_DEVICES env)) in
      if manualDevices = [] then []
      else filter (\<lambda>h. h \<noteq> []) (map trim (split_on CHR '','' manualDevices)))"

text \<open>
  The two \<open>forEach\<close> loops of \<open>discoverDevices\<close> one after the other, from an empty
  \<open>deviceSet\<close> and an empty \<open>devices\<close>.
\<close>

definition mergeDevices :: "hd_device list \<Rightarrow> hd_device list \<Rightarrow> hd_device list" where
  "mergeDevices autoDiscovered manualResults =
     snd (fold addDevice manualResults (fold addDevice autoDiscovered ({}, [])))"

text \<open>
  \<open>discoverDevices\<close> (lines 33 to 75): the list returned, the controller after the call,
  and the number of HTTPS requests sent. \<open>discovery_lists\<close> are the two lists that the
  loops run over in that call: \<open>autoDiscovered\<close> and \<open>manualResults\<close>.
\<close>

definition discoverDevices ::
  "discovery_env \<Rightarrow> bool \<Rightarrow> controller \<Rightarrow> hd_device list \<times> controller \<times> nat" where
  "discoverDevices env forceRefresh s0 =
     (let s1 = (if forceRefresh then s0 \<lparr> deviceNameCache := Map.empty \<rparr> else s0);
          disableDiscovery = (HDHOMERUN_DISABLE_DISCOVERY env = Some ''true'');
          (autoDiscovered, s2, requests) =
             (if \<not> disableDiscovery then autoDiscoverDevices env forceRefresh s1
              else ([], s1, 0));
          (manualResults, s3) = getDevicesByHost env (manualHosts env) s2;
          devs = mergeDevices autoDiscovered manualResults
      in (devs, s3 \<lparr> devices := devs \<rparr>, requests))"

definition discovery_lists ::
  "discovery_env \<Rightarrow> bool \<Rightarrow> controller \<Rightarrow> hd_device list \<times> hd_device list" where
  "discovery_lists env forceRefresh s0 =
     (let s1 = (if forceRefresh then s0 \<lparr> deviceNameCache := Map.empty \<rparr> else s0);
          disableDiscovery = (HDHOMERUN_DISABLE_DISCOVERY env = Some ''true'');
          (autoDiscovered, s2, requests) =
             (if \<not> disableDiscovery then autoDiscoverDevices env forceRefresh s1
              else ([], s1, 0));
          (manualResults, s3) = getDevicesByHost env (manualHosts env) s2
      in (autoDiscovered, manualResults))"

section \<open>The programs of the current channel\<close>

text \<open>An element of the list that \<open>getCurrentChannelPrograms\<close> resolves to.\<close>

record program =
  programNum :: string
  virtualChannel :: string
  programName :: string
  callsign :: string
  status :: string
  encrypted :: bool
  atsc3 :: bool

text \<open>
  The dot of a regular expression matches every character but a line terminator;
  \<open>includes_str\<close> is \<open>String.prototype.includes\<close>.
\<close>

definition is_dot :: "char \<Rightarrow> bool" where
  "is_dot c = (c \<noteq> CHR 0x0A \<and> c \<noteq> CHR 0x0D)"

definition is_chan_char :: "char \<Rightarrow> bool" where
  "is_chan_char c = (is_digit c \<or> c = CHR ''.'')"

definition not_rparen :: "char \<Rightarrow> bool" where
  "not_rparen c = (c \<noteq> CHR '')'')"

fun includes_str :: "string \<Rightarrow> string \<Rightarrow> bool" where
  "includes_str [] sub = (sub = [])"
| "includes_str (c # cs) sub = (starts_with sub (c # cs) \<or> includes_str cs sub)"

text \<open>
  The end of both program patterns, \<open>(?:\s+\(([^)]+)\))?$\<close>, tried where the name stops:
  the group is tried first; without it the input must end here. The result is the
  fourth capture (\<open>None\<close> when the group did not take part), or no match.
\<close>

definition match_suffix :: "string \<Rightarrow> string option option" where
  "match_suffix u =
     (let r = dropWhile is_space u; g = takeWhile not_rparen (drop 1 r) in
      if takeWhile is_space u \<noteq> [] \<and> take 1 r = ''('' \<and> g \<noteq> []
         \<and> dropWhile not_rparen (drop 1 r) = '')''
      then Some (Some g)
      else if u = [] then Some None else None)"

text \<open>The lazy \<open>(.+?)\<close>: the shortest name after which the end of the pattern matches.\<close>

fun match_name :: "string \<Rightarrow> string \<Rightarrow> (string \<times> string option) option" where
  "match_name pre [] = None"
| "match_name pre (c # cs) =
     (if \<not> is_dot c then None
      else case match_suffix cs of
        Some g4 \<Rightarrow> Some (pre @ [c], g4)
      | None \<Rightarrow> match_name (pre @ [c]) cs)"

text \<open>
  The greedy \<open>\s+\<close> before the name gives characters back one at a time, down to one
  character, when the rest does not match.
\<close>

fun match_gap :: "nat \<Rightarrow> string \<Rightarrow> (string \<times> string option) option" where
  "match_gap 0 r = None"
| "match_gap (Suc k) r =
     (case match_name [] (drop (Suc k) r) of
        Some m \<Rightarrow> Some m
      | None \<Rightarrow> match_gap k r)"

text \<open>
  \<open>(\d+):\s*([\d.]+)\s+(.+?)(?:\s+\(([^)]+)\))?$\<close> at one start position: the four captures.
  The runs of \<open>\d+\<close>, \<open>\s*\<close> and \<open>[\d.]+\<close> are each followed by something their class
  excludes, so only the whole run can match.
\<close>

definition match_entry_at :: "string \<Rightarrow> (string \<times> string \<times> string \<times> string option) option" where
  "match_entry_at s =
     (let g1 = takeWhile is_digit s; r1 = dropWhile is_digit s in
      if g1 = [] \<or> take 1 r1 \<noteq> '':'' then None
      else let r2 = dropWhile is_space (drop 1 r1);
               g2 = takeWhile is_chan_char r2; r3 = dropWhile is_chan_char r2 in
        if g2 = [] then None
        else case match_gap (length (takeWhile is_space r3)) r3 of
          None \<Rightarrow> None
        | Some (g3, g4) \<Rightarrow> Some (g1, g2, g3, g4))"

text \<open>\<open>/(?:program|service)=(\d+):...$/\<close>, leftmost match.\<close>

fun programMatch :: "string \<Rightarrow> (string \<times> string \<times> string \<times> string option) option" where
  "programMatch [] = None"
| "programMatch (c # cs) =
     (case (if starts_with ''program='' (c # cs) \<or> starts_with ''service='' (c # cs)
            then match_entry_at (drop (length ''program='') (c # cs)) else None) of
        Some m \<Rightarrow> Some m
      | None \<Rightarrow> programMatch cs)"

text \<open>\<open>/(\d+):...$/\<close>, leftmost match.\<close>

fun altMatch :: "string \<Rightarrow> (string \<times> string \<times> string \<times> string option) option" where
  "altMatch [] = None"
| "altMatch (c # cs) =
     (case match_entry_at (c # cs) of Some m \<Rightarrow> Some m | None \<Rightarrow> altMatch cs)"

definition make_program :: "string \<times> string \<times> string \<times> string option \<Rightarrow> program" where
  "make_program m =
     (case m of (g1, g2, g3, g4) \<Rightarrow>
        let st = (if falsy g4 then [] else the g4) in
        \<lparr> programNum = g1, virtualChannel = g2, programName = trim g3, callsign = trim g3,
          status = st, encrypted = includes_str st ''encrypted'', atsc3 = includes_str st ''atsc3'' \<rparr>)"

text \<open>The parsing of the output of \<open>streaminfo\<close> (lines 559 to 597).\<close>

definition parse_line :: "string \<Rightarrow> program list" where
  "parse_line line =
     (case programMatch line of
        Some m \<Rightarrow> [make_program m]
      | None \<Rightarrow> (case altMatch line of Some m \<Rightarrow> [make_program m] | None \<Rightarrow> []))"

definition parsePrograms :: "string \<Rightarrow> program list" where
  "parsePrograms stdout =
     concat (map parse_line (filter (\<lambda>line. trim line \<noteq> []) (split_on CHR 0x0A stdout)))"

text \<open>
  \<open>tryGetPrograms\<close> (lines 547 to 608). \<open>streaminfo k\<close> is what the query
  \<open>get /tuner<tuner>/streaminfo\<close> answers when \<open>attempt\<close> is \<open>k\<close>: its output, or \<open>None\<close>
  on an error. The second component counts the queries issued. The waits between the
  attempts (1.5 and 2 seconds) have no counterpart here.
\<close>

function tryGetPrograms :: "(nat \<Rightarrow> string option) \<Rightarrow> nat \<Rightarrow> nat \<Rightarrow> program list \<times> nat" where
  "tryGetPrograms streaminfo maxRetries attempt =
     (case streaminfo attempt of
        None \<Rightarrow>
          if attempt < maxRetries
          then (case tryGetPrograms streaminfo maxRetries (attempt + 1) of (ps, n) \<Rightarrow> (ps, Suc n))
          else ([], 1)
      | Some stdout \<Rightarrow>
          let programs = parsePrograms stdout in
          if programs = [] \<and> attempt < maxRetries
          then (case tryGetPrograms streaminfo maxRetries (attempt + 1) of (ps, n) \<Rightarrow> (ps, Suc n))
          else (programs, 1))"
  by pat_completeness auto
termination
  by (relation "measure (\<lambda>(streaminfo, maxRetries, attempt). maxRetries - attempt)") auto

declare tryGetPrograms.simps [simp del]

text \<open>
  \<open>getCurrentChannelPrograms\<close> (lines 537 to 612): the list it resolves to and the number
  of \<open>streaminfo\<close> queries issued. The promise never rejects.
\<close>

definition getCurrentChannelPrograms ::
  "tuner_exec \<Rightarrow> (nat \<Rightarrow> string option) \<Rightarrow> string \<Rightarrow> nat \<Rightarrow> nat \<Rightarrow> program list \<times> nat" where
  "getCurrentChannelPrograms exec streaminfo deviceId tuner maxRetries =
     (case getTunerStatus exec deviceId tuner of
        None \<Rightarrow> ([], 0)
      | Some st \<Rightarrow>
          if \<not> lock st \<or> channel st = Some ''none'' then ([], 0)
          else tryGetPrograms streaminfo maxRetries 0)"

section \<open>Monitoring sessions\<close>

text \<open>
  A connected client is a socket with an id. The timers of the runtime are the set of
  handles that \<open>setInterval\<close> has returned and \<open>clearInterval\<close> has not cancelled; the
  next handle is fresh. \<open>stopMonitoring\<close> is also called with no socket at all
  (\<open>socket?.id\<close>), which is \<open>None\<close>.
\<close>

datatype socket = Socket (socket_id: string)

record runtime =
  ctrl :: controller
  timers :: "nat set"
  next_timer :: nat

definition stopMonitoring :: "socket option \<Rightarrow> runtime \<Rightarrow> runtime" where
  "stopMonitoring socket r =
     (let socketId = map_option socket_id socket in
      if \<not> falsy socketId \<and> the socketId \<in> dom (monitoringIntervals (ctrl r))
      then r \<lparr> timers := timers r - {the (monitoringIntervals (ctrl r) (the socketId))},
               ctrl := (ctrl r) \<lparr> monitoringIntervals :=
                          (monitoringIntervals (ctrl r)) (the socketId := None) \<rparr> \<rparr>
      else r)"

text \<open>
  \<open>startMonitoring\<close> and \<open>startAntennaMode\<close> differ in the callback they schedule, not
  in what they do to the sessions: stop, \<open>setInterval\<close>, record the handle.
\<close>

definition setInterval :: "runtime \<Rightarrow> nat \<times> runtime" where
  "setInterval r =
     (next_timer r, r \<lparr> timers := insert (next_timer r) (timers r), next_timer := Suc (next_timer r) \<rparr>)"

definition start_session :: "socket \<Rightarrow> runtime \<Rightarrow> runtime" where
  "start_session socket r =
     (case setInterval (stopMonitoring (Some socket) r) of
        (intervalId, r') \<Rightarrow>
          r' \<lparr> ctrl := (ctrl r') \<lparr> monitoringIntervals :=
                   (monitoringIntervals (ctrl r')) (socket_id socket \<mapsto> intervalId) \<rparr> \<rparr>)"

definition startMonitoring :: "socket \<Rightarrow> string \<Rightarrow> nat \<Rightarrow> runtime \<Rightarrow> runtime" where
  "startMonitoring socket deviceId tuner r = start_session socket r"

definition startAntennaMode :: "socket \<Rightarrow> string \<Rightarrow> nat \<Rightarrow> runtime \<Rightarrow> runtime" where
  "startAntennaMode socket deviceId tunerCount r = start_session socket r"

text \<open>
  One tick of antenna mode (lines 800 to 816): the payload of the event
  \<open>antenna-mode-status\<close>. A promise is fulfilled with a value or rejected; the
  \<open>.catch\<close> turns a rejection into a \<open>null\<close> status for that tuner.
  \<open>Array.from({ length: tunerCount }, ...)\<close> runs over the indices from \<open>0\<close>.
\<close>

datatype 'a promise = Fulfilled 'a | Rejected

definition antenna_entry :: "nat \<Rightarrow> tuner_status option promise \<Rightarrow> nat \<times> tuner_status option" where
  "antenna_entry i p = (case p of Fulfilled st \<Rightarrow> (i, st) | Rejected \<Rightarrow> (i, None))"

definition allTunersData ::
  "(nat \<Rightarrow> tuner_status option promise) \<Rightarrow> nat \<Rightarrow> (nat \<times> tuner_status option) list" where
  "allTunersData fetch tunerCount = map (\<lambda>i. antenna_entry i (fetch i)) [0..<tunerCount]"

definition antennaModeTick :: "tuner_exec \<Rightarrow> string \<Rightarrow> nat \<Rightarrow> (nat \<times> tuner_status option) list" where
  "antennaModeTick exec deviceId tunerCount =
     allTunersData (\<lambda>i. Fulfilled (getTunerStatus exec deviceId i)) tunerCount"

section \<open>Notions used to state the properties\<close>

text \<open>
  A tuner that answers the status query with \<open>st\<close> and the debug query with \<open>dbg\<close>,
  and a tuner with its debug query made to fail; a status without the three fields that
  come from the debug output; the status of an idle tuner.
\<close>

definition answers :: "string option \<Rightarrow> string option \<Rightarrow> tuner_exec" where
  "answers st dbg =
     (\<lambda>deviceId tuner command.
        if command = ''status'' then st else if command = ''debug'' then dbg else None)"

definition without_debug :: "tuner_exec \<Rightarrow> tuner_exec" where
  "without_debug exec =
     (\<lambda>deviceId tuner command. if command = ''debug'' then None else exec deviceId tuner command)"

definition no_estimate :: "tuner_status \<Rightarrow> tuner_status" where
  "no_estimate st = st \<lparr> ssDb := None, snrDb := None, debugRaw := None \<rparr>"

definition idle_status :: tuner_status where
  "idle_status =
     \<lparr> channel = Some ''none'', lock = False, ss = None, snq = None, seq = None,
       bps = None, pps = None, ssDb = None, snrDb = None, debugRaw = None \<rparr>"

text \<open>
  The spec's reading of a status line, "key=value tokens separated by whitespace":
  the tokens of a line, and a key being present as a token of the line.
\<close>

fun tokens_from :: "string \<Rightarrow> string \<Rightarrow> string list" where
  "tokens_from cur [] = (if cur = [] then [] else [cur])"
| "tokens_from cur (c # cs) =
     (if is_space c then (if cur = [] then tokens_from [] cs else cur # tokens_from [] cs)
      else tokens_from (cur @ [c]) cs)"

definition tokens :: "string \<Rightarrow> string list" where
  "tokens line = tokens_from [] line"

definition token_present :: "string \<Rightarrow> string \<Rightarrow> bool" where
  "token_present key line = list_ex (starts_with (key @ ''='')) (tokens line)"

text \<open>
  What the patterns look for: the literal \<open>key\<close> followed by a character of the class
  \<open>C\<close>, anywhere in the line; and the value at the leftmost such place, the longest run
  of characters of the class that follows the literal there.
\<close>

definition occurs :: "string \<Rightarrow> (char \<Rightarrow> bool) \<Rightarrow> string \<Rightarrow> bool" where
  "occurs key C line = (\<exists>pre c post. line = pre @ key @ c # post \<and> C c)"

definition leftmost_value :: "string \<Rightarrow> (char \<Rightarrow> bool) \<Rightarrow> string \<Rightarrow> string \<Rightarrow> bool" where
  "leftmost_value key C line v =
     (\<exists>pre post. line = pre @ key @ v @ post \<and> v \<noteq> [] \<and> list_all C v
        \<and> (post = [] \<or> \<not> C (hd post))
        \<and> (\<forall>pre' c post'. line = pre' @ key @ c # post' \<and> C c \<longrightarrow> length pre \<le> length pre'))"

text \<open>
  A numeric field of the status against its key in the line: absent exactly when the key
  is not followed by a digit anywhere, and otherwise the base-ten reading of the
  leftmost run of digits that follows the key.
\<close>

definition numeric_field :: "nat option \<Rightarrow> string \<Rightarrow> string \<Rightarrow> bool" where
  "numeric_field field key line =
     ((field = None \<longleftrightarrow> \<not> occurs key is_digit line)
      \<and> (\<forall>n. field = Some n \<longleftrightarrow> (\<exists>v. leftmost_value key is_digit line v \<and> n = parseInt v)))"

text \<open>
  Every entry of \<open>deviceNameCache\<close> holds a device whose id is the key of the entry; the
  controllers that the program can be in, from the constructor on; the cache having an
  entry for a host that is younger than the TTL; and the placeholder of a host that
  does not answer.
\<close>

definition cache_keyed :: "controller \<Rightarrow> bool" where
  "cache_keyed s = (\<forall>h e. deviceNameCache s h = Some e \<longrightarrow> id_dev (device e) = h)"

inductive reachable :: "controller \<Rightarrow> bool" where
  constructed: "reachable new_controller"
| discovered: "reachable s \<Longrightarrow> reachable (fst (snd (discoverDevices env forceRefresh s)))"
| looked_up: "reachable s \<Longrightarrow> reachable (snd (getDeviceByHost env host s))"
| sessions: "reachable s \<Longrightarrow> reachable (s \<lparr> monitoringIntervals := m \<rparr>)"

definition cache_fresh :: "discovery_env \<Rightarrow> controller \<Rightarrow> string \<Rightarrow> bool" where
  "cache_fresh env s host =
     (deviceNameCache s host \<noteq> None
      \<and> now env - timestamp (the (deviceNameCache s host)) < cacheTTL)"

definition offline_device :: "string \<Rightarrow> hd_device" where
  "offline_device host = \<lparr> id_dev = host, ip = host,
                            name = ''HDHomeRun ('' @ host @ '')'', online = False \<rparr>"

definition has_DeviceID :: "cloud_entry \<Rightarrow> bool" where
  "has_DeviceID e = (\<not> falsy (DeviceID e))"

text \<open>
  The runtime when the server starts, the runtimes it can be in afterwards (a connected
  socket has a non-empty id), and what holds in all of them: the live timers are exactly
  the handles recorded for sessions, every handle is older than the next one, and no
  two clients share a handle.
\<close>

definition booted :: runtime where
  "booted = \<lparr> ctrl = new_controller, timers = {}, next_timer = 0 \<rparr>"

inductive running :: "runtime \<Rightarrow> bool" where
  boot: "running booted"
| started: "running r \<Longrightarrow> socket_id so \<noteq> [] \<Longrightarrow> running (startMonitoring so deviceId tuner r)"
| antenna: "running r \<Longrightarrow> socket_id so \<noteq> [] \<Longrightarrow> running (startAntennaMode so deviceId tunerCount r)"
| stopped: "running r \<Longrightarrow> running (stopMonitoring socket r)"
| listed: "running r \<Longrightarrow> running (r \<lparr> ctrl := fst (snd (discoverDevices env forceRefresh (ctrl r))) \<rparr>)"

definition sessions_ok :: "runtime \<Rightarrow> bool" where
  "sessions_ok r =
     (timers r = ran (monitoringIntervals (ctrl r))
      \<and> (\<forall>h\<in>timers r. h < next_timer r)
      \<and> (\<forall>a b h. monitoringIntervals (ctrl r) a = Some h \<and> monitoringIntervals (ctrl r) b = Some h
             \<longrightarrow> a = b))"

section \<open>Sample inputs\<close>

text \<open>
  A network where the broadcast finds nothing and the vendor's API lists one tuner and
  one storage-only entry; the same network with two manually configured hosts, the
  first of them the address that the API lists; the device that the API gives.
\<close>

definition cloud_only_env :: discovery_env where
  "cloud_only_env =
     \<lparr> udp_stdout = None,
       cloud_response = Some [\<lparr> DeviceID = Some ''1075D4B1'', LocalIP = ''192.168.1.5'' \<rparr>,
                              \<lparr> DeviceID = None, LocalIP = ''192.168.1.9'' \<rparr>],
       hwmodel = (\<lambda>host. None), discover_stdout = (\<lambda>host. []),
       now = 1000, now_stored = 1001,
       HDHOMERUN_DISABLE_DISCOVERY = None, HDHOMERUN_DEVICES = None \<rparr>"

definition collision_env :: discovery_env where
  "collision_env = cloud_only_env \<lparr> HDHOMERUN_DEVICES := Some ''192.168.1.5, 192.168.1.7'' \<rparr>"

definition cloud_tuner :: hd_device where
  "cloud_tuner = \<lparr> id_dev = ''192.168.1.5'', ip = ''192.168.1.5'',
                   name = ''HDHomeRun 1075D4B1'', online = True \<rparr>"

text \<open>
  The vendor's API listing two tuners at one address, one tuner at two addresses, a
  storage-only entry and an entry with an empty id.
\<close>

definition cloud_dupes_env :: discovery_env where
  "cloud_dupes_env =
     cloud_only_env \<lparr> cloud_response :=
        Some [\<lparr> DeviceID = Some ''1075D4B1'', LocalIP = ''192.168.1.5'' \<rparr>,
              \<lparr> DeviceID = Some ''10A0FFEE'', LocalIP = ''192.168.1.5'' \<rparr>,
              \<lparr> DeviceID = Some ''1075D4B1'', LocalIP = ''192.168.1.6'' \<rparr>,
              \<lparr> DeviceID = None, LocalIP = ''192.168.1.9'' \<rparr>,
              \<lparr> DeviceID = Some [], LocalIP = ''192.168.1.10'' \<rparr>] \<rparr>"

text \<open>
  A device whose tuner 1 does not answer, the others locked on channel 8; a locked
  tuner and an idle one; a program query that never answers.
\<close>

definition one_dead_tuner :: tuner_exec where
  "one_dead_tuner =
     (\<lambda>deviceId tuner command.
        if tuner = 1 then None
        else if command = ''status'' then Some ''ch=8 lock=8vsb ss=71'' else None)"

definition locked_tuner :: tuner_exec where
  "locked_tuner = answers (Some ''ch=8 lock=8vsb ss=71'') None"

definition idle_tuner :: tuner_exec where
  "idle_tuner = answers (Some ''none'') None"

definition never_answers :: "nat \<Rightarrow> string option" where
  "never_answers k = None"

text \<open>
  A tuner whose status query prints an empty line while its debug query fails, and a
  locked tuner whose debug output is not in the expected form.
\<close>

definition blank_tuner :: tuner_exec where
  "blank_tuner = answers (Some [CHR 0x0A]) None"

definition garbled_debug_tuner :: tuner_exec where
  "garbled_debug_tuner = answers (Some ''ch=8 lock=8vsb ss=71'') (Some ''dbg=86/19'')"

text \<open>
  Two status lines: one whose \<open>lock\<close> token has no value and whose \<open>ss\<close> token is not
  a number, and one whose tokens end in the documented keys without being them.
\<close>

definition odd_status_tuner :: tuner_exec where
  "odd_status_tuner = answers (Some ''ch=8 lock= ss=n/a'') None"

definition glued_status_tuner :: tuner_exec where
  "glued_status_tuner = answers (Some ''xch=8 mss=71'') None"

text \<open>
  A locked tuner whose debug output carries the raw counters 86 and 19, and one whose
  debug output carries the raw counters 0 and 0.
\<close>

definition strong_signal_tuner :: tuner_exec where
  "strong_signal_tuner = answers (Some ''ch=8 lock=8vsb ss=71'') (Some ''tun: dbg=86-19/-1817'')"

definition zero_counters_tuner :: tuner_exec where
  "zero_counters_tuner = answers (Some ''ch=8 lock=8vsb ss=71'') (Some ''dbg=0-0/0'')"

text \<open>A runtime with one session, of the client \<open>sock-A\<close>, and its timer.\<close>

definition sample_runtime :: runtime where
  "sample_runtime =
     \<lparr> ctrl = new_controller \<lparr> monitoringIntervals := [''sock-A'' \<mapsto> 7] \<rparr>,
       timers = {7}, next_timer = 8 \<rparr>"

section \<open>The signal estimator\<close>

lemma Math_round_of_int: "Math_round (of_int k) = k"
  unfolding Math_round_def by linarith

lemma Math_round_near: "\<bar>of_int (Math_round x) - x\<bar> \<le> 1 / 2"
  unfolding Math_round_def by linarith

text \<open>
  The four buckets have the same slope and meet at their boundaries: the estimate of
  the signal is one straight line through all of them.
\<close>

lemma estimatedSignalDbm_linear: "estimatedSignalDbm signalRaw = of_nat signalRaw / 2 - 90"
  unfolding estimatedSignalDbm_def by (simp add: algebra_simps)

lemma estimatedSignalDbm_tenths:
  "estimatedSignalDbm signalRaw * 10 = of_int (5 * int signalRaw - 900)"
  unfolding estimatedSignalDbm_linear by simp

lemma estimate_ssDb: "fst (estimate signalRaw snrRaw) = estimatedSignalDbm signalRaw"
proof -
  have "fst (estimate signalRaw snrRaw) = of_int (5 * int signalRaw - 900) / 10"
    unfolding estimate_def estimatedSignalDbm_tenths Math_round_of_int by simp
  also have "\<dots> = estimatedSignalDbm signalRaw"
    unfolding estimatedSignalDbm_linear by simp
  finally show ?thesis .
qed

lemma estimate_snrDb:
  "\<exists>k::int. snd (estimate signalRaw snrRaw) = of_int k / 10
     \<and> \<bar>snd (estimate signalRaw snrRaw) - estimatedSnrDb snrRaw\<bar> \<le> 1 / 20"
proof (cases "snrRaw > 0")
  case True
  let ?k = "Math_round (estimatedSnrDb snrRaw * 10)"
  have s: "snd (estimate signalRaw snrRaw) = of_int ?k / 10"
    using True by (simp add: estimate_def)
  have "\<bar>of_int ?k - estimatedSnrDb snrRaw * 10\<bar> \<le> 1 / 2"
    by (rule Math_round_near)
  then have "\<bar>of_int ?k / 10 - estimatedSnrDb snrRaw\<bar> \<le> 1 / 20"
    by linarith
  with s show ?thesis by metis
next
  case False
  then have "snd (estimate signalRaw snrRaw) = of_int 0 / 10" "estimatedSnrDb snrRaw = 0"
    by (simp_all add: estimate_def estimatedSnrDb_def)
  then show ?thesis
    by (metis abs_zero diff_zero zero_le_divide_1_iff zero_le_numeral of_int_0 div_0)
qed

section \<open>Discovery: the cloud fallback and its cache\<close>

text \<open>
  Claim C1. When the broadcast finds no device: with \<open>forceRefresh\<close> false and a cache
  that exists (an empty list included) the cached list is returned as it is and no HTTPS
  request is sent; otherwise exactly one request is sent and its result, empty or not,
  is stored in the cache and returned. Hence a second call without \<open>forceRefresh\<close> sends
  no request and returns the same list.
\<close>

theorem autoDiscover_cache_law:
  assumes "udpDiscoverDevices env = []"
  shows "(\<not> forceRefresh \<and> httpDiscoveryCache s \<noteq> None \<longrightarrow>
            autoDiscoverDevices env forceRefresh s = (the (httpDiscoveryCache s), s, 0))
       \<and> (forceRefresh \<or> httpDiscoveryCache s = None \<longrightarrow>
            autoDiscoverDevices env forceRefresh s =
              (httpDiscoverDevices env,
               s \<lparr> httpDiscoveryCache := Some (httpDiscoverDevices env) \<rparr>, 1))
       \<and> (\<forall>env'. udpDiscoverDevices env' = [] \<longrightarrow>
            (case autoDiscoverDevices env forceRefresh s of
               (devs, s', requests) \<Rightarrow> autoDiscoverDevices env' False s' = (devs, s', 0)))"
  using assms by (auto simp: autoDiscoverDevices_def Let_def)

theorem autoDiscover_cache_law_witness:
  "udpDiscoverDevices cloud_only_env = []
   \<and> autoDiscoverDevices cloud_only_env False new_controller =
       (httpDiscoverDevices cloud_only_env,
        new_controller \<lparr> httpDiscoveryCache := Some (httpDiscoverDevices cloud_only_env) \<rparr>, 1)
   \<and> autoDiscoverDevices cloud_only_env False
        (new_controller \<lparr> httpDiscoveryCache := Some [] \<rparr>) =
       ([], new_controller \<lparr> httpDiscoveryCache := Some [] \<rparr>, 0)
   \<and> autoDiscoverDevices cloud_only_env True
        (new_controller \<lparr> httpDiscoveryCache := Some [] \<rparr>) =
       (httpDiscoverDevices cloud_only_env,
        new_controller \<lparr> httpDiscoveryCache := Some (httpDiscoverDevices cloud_only_env) \<rparr>, 1)"
proof -
  have u: "udpDiscoverDevices cloud_only_env = []"
    by (simp add: udpDiscoverDevices_def cloud_only_env_def)
  from autoDiscover_cache_law [OF u, of False new_controller]
       autoDiscover_cache_law [OF u, of False "new_controller \<lparr> httpDiscoveryCache := Some [] \<rparr>"]
       autoDiscover_cache_law [OF u, of True "new_controller \<lparr> httpDiscoveryCache := Some [] \<rparr>"]
  show ?thesis using u by (simp add: new_controller_def)
qed

section \<open>Antenna mode\<close>

lemma fst_antenna_entry: "fst (antenna_entry i p) = i"
  by (simp add: antenna_entry_def split: promise.splits)

lemma allTunersData_nth:
  "i < tunerCount \<Longrightarrow> allTunersData fetch tunerCount ! i = antenna_entry i (fetch i)"
  by (simp add: allTunersData_def)

lemma getTunerStatus_status_fails:
  "exec deviceId tuner ''status'' = None \<Longrightarrow> getTunerStatus exec deviceId tuner = None"
  by (simp add: getTunerStatus_def getStatusCommand_def falsy_def)

text \<open>
  Claim C9. A tick of antenna mode with \<open>tunerCount = N\<close> emits an array of exactly
  \<open>N\<close> entries, entry \<open>i\<close> for tuner \<open>i\<close>, in order; a fetch that fails gives a null
  status in its own entry, and the other entries are what they are without the failure.
\<close>

theorem antenna_tick_isolated:
  "length (allTunersData fetch tunerCount) = tunerCount
   \<and> map fst (allTunersData fetch tunerCount) = [0..<tunerCount]
   \<and> (\<forall>i<tunerCount. fetch i = Rejected \<longrightarrow> allTunersData fetch tunerCount ! i = (i, None))
   \<and> (\<forall>i<tunerCount. \<forall>st. fetch i = Fulfilled st \<longrightarrow> allTunersData fetch tunerCount ! i = (i, st))
   \<and> (\<forall>i<tunerCount. \<forall>j<tunerCount. j \<noteq> i \<longrightarrow>
         allTunersData (fetch (i := Rejected)) tunerCount ! j = allTunersData fetch tunerCount ! j)
   \<and> length (antennaModeTick exec deviceId tunerCount) = tunerCount
   \<and> (\<forall>i<tunerCount. antennaModeTick exec deviceId tunerCount ! i = (i, getTunerStatus exec deviceId i))
   \<and> (\<forall>i<tunerCount. exec deviceId i ''status'' = None \<longrightarrow>
         antennaModeTick exec deviceId tunerCount ! i = (i, None))"
proof -
  have a: "length (allTunersData fetch tunerCount) = tunerCount" for fetch
    by (simp add: allTunersData_def)
  have b: "map fst (allTunersData fetch tunerCount) = [0..<tunerCount]"
    by (rule nth_equalityI) (simp_all add: a allTunersData_nth fst_antenna_entry)
  have c: "\<forall>i<tunerCount. fetch i = Rejected \<longrightarrow> allTunersData fetch tunerCount ! i = (i, None)"
    by (simp add: allTunersData_nth antenna_entry_def)
  have d: "\<forall>i<tunerCount. \<forall>st. fetch i = Fulfilled st \<longrightarrow> allTunersData fetch tunerCount ! i = (i, st)"
    by (simp add: allTunersData_nth antenna_entry_def)
  have e: "\<forall>i<tunerCount. \<forall>j<tunerCount. j \<noteq> i \<longrightarrow>
         allTunersData (fetch (i := Rejected)) tunerCount ! j = allTunersData fetch tunerCount ! j"
    by (simp add: allTunersData_nth)
  have f: "\<forall>i<tunerCount. antennaModeTick exec deviceId tunerCount ! i = (i, getTunerStatus exec deviceId i)"
    by (simp add: antennaModeTick_def allTunersData_nth antenna_entry_def)
  have g: "\<forall>i<tunerCount. exec deviceId i ''status'' = None \<longrightarrow>
         antennaModeTick exec deviceId tunerCount ! i = (i, None)"
    using f by (simp add: getTunerStatus_status_fails)
  have h: "length (antennaModeTick exec deviceId tunerCount) = tunerCount"
    by (simp add: antennaModeTick_def a)
  from a b c d e f g h show ?thesis by blast
qed

theorem antenna_tick_isolated_witness:
  "antennaModeTick one_dead_tuner ''10.0.0.5'' 3 =
     [(0, Some (parseStatusLine ''ch=8 lock=8vsb ss=71'')), (1, None),
      (2, Some (parseStatusLine ''ch=8 lock=8vsb ss=71''))]"
proof -
  have s: "getTunerStatus one_dead_tuner ''10.0.0.5'' i =
            (if i = 1 then None else Some (parseStatusLine ''ch=8 lock=8vsb ss=71''))" for i
    by (simp add: getTunerStatus_def getStatusCommand_def one_dead_tuner_def falsy_def
          addDebug_def trim_def is_space_def)
  have l: "length (antennaModeTick one_dead_tuner ''10.0.0.5'' 3) = 3"
    and n: "\<forall>i<3. antennaModeTick one_dead_tuner ''10.0.0.5'' 3 ! i
                     = (i, getTunerStatus one_dead_tuner ''10.0.0.5'' i)"
    using antenna_tick_isolated [of "\<lambda>i. Rejected" 3 one_dead_tuner "''10.0.0.5''"] by blast+
  show ?thesis
    by (rule nth_equalityI) (use l n s in \<open>auto simp: less_Suc_eq numeral_3_eq_3\<close>)
qed

section \<open>Programs with retries\<close>

lemma tryGetPrograms_exhausted:
  "attempt \<le> maxRetries \<Longrightarrow>
   (\<forall>k. attempt \<le> k \<and> k \<le> maxRetries \<longrightarrow>
        streaminfo k = None \<or> parsePrograms (the (streaminfo k)) = []) \<Longrightarrow>
   tryGetPrograms streaminfo maxRetries attempt = ([], Suc (maxRetries - attempt))"
proof (induction streaminfo maxRetries attempt rule: tryGetPrograms.induct)
  case (1 streaminfo maxRetries attempt)
  show ?case
  proof (cases "attempt < maxRetries")
    case True
    have next_ok: "tryGetPrograms streaminfo maxRetries (attempt + 1) = ([], Suc (maxRetries - (attempt + 1)))"
    proof (cases "streaminfo attempt")
      case None
      show ?thesis using "1.IH"(1) [OF None True] True "1.prems" by simp
    next
      case (Some stdout)
      then have "parsePrograms stdout = []" using "1.prems" by force
      then show ?thesis using "1.IH"(2) [OF Some refl _ ] True "1.prems" by simp
    qed
    show ?thesis
    proof (cases "streaminfo attempt")
      case None
      then show ?thesis using True next_ok
        by (subst tryGetPrograms.simps) (simp add: Suc_diff_Suc)
    next
      case (Some stdout)
      then have "parsePrograms stdout = []" using "1.prems" by force
      then show ?thesis using True next_ok Some
        by (subst tryGetPrograms.simps) (simp add: Suc_diff_Suc)
    qed
  next
    case False
    then have eq: "attempt = maxRetries" using "1.prems" by simp
    show ?thesis
    proof (cases "streaminfo attempt")
      case None
      then show ?thesis using eq by (subst tryGetPrograms.simps) simp
    next
      case (Some stdout)
      then have "parsePrograms stdout = []" using "1.prems" by force
      then show ?thesis using eq Some by (subst tryGetPrograms.simps) simp
    qed
  qed
qed


text \<open>
  Claim C6. When the status check gives null, an unlocked tuner or the channel
  \<open>none\<close>, the result is the empty list and no \<open>streaminfo\<close> query is issued; when
  every attempt, the first and the \<open>maxRetries\<close> retries, fails or lists no program, the
  result is the empty list. The function is total: there is no error to return.
\<close>

theorem programs_gated:
  "((getTunerStatus exec deviceId tuner = None
      \<or> (\<exists>st. getTunerStatus exec deviceId tuner = Some st
               \<and> (\<not> lock st \<or> channel st = Some ''none''))) \<longrightarrow>
      getCurrentChannelPrograms exec streaminfo deviceId tuner maxRetries = ([], 0))
   \<and> ((\<forall>k\<le>maxRetries. streaminfo k = None \<or> parsePrograms (the (streaminfo k)) = []) \<longrightarrow>
        fst (getCurrentChannelPrograms exec streaminfo deviceId tuner maxRetries) = []
        \<and> snd (getCurrentChannelPrograms exec streaminfo deviceId tuner maxRetries)
            \<in> {0, Suc maxRetries})
   \<and> ((\<forall>k\<le>maxRetries. streaminfo k = None \<or> parsePrograms (the (streaminfo k)) = [])
        \<and> (\<exists>st. getTunerStatus exec deviceId tuner = Some st \<and> lock st
                  \<and> channel st \<noteq> Some ''none'') \<longrightarrow>
        getCurrentChannelPrograms exec streaminfo deviceId tuner maxRetries
          = ([], Suc maxRetries))"
proof -
  have gate: "(getTunerStatus exec deviceId tuner = None
      \<or> (\<exists>st. getTunerStatus exec deviceId tuner = Some st
               \<and> (\<not> lock st \<or> channel st = Some ''none''))) \<longrightarrow>
      getCurrentChannelPrograms exec streaminfo deviceId tuner maxRetries = ([], 0)"
    by (auto simp: getCurrentChannelPrograms_def)
  have loop: "tryGetPrograms streaminfo maxRetries 0 = ([], Suc maxRetries)"
    if "\<forall>k\<le>maxRetries. streaminfo k = None \<or> parsePrograms (the (streaminfo k)) = []"
    using tryGetPrograms_exhausted [of 0 maxRetries streaminfo] that by simp
  have either: "getCurrentChannelPrograms exec streaminfo deviceId tuner maxRetries = ([], 0)
      \<or> getCurrentChannelPrograms exec streaminfo deviceId tuner maxRetries
           = tryGetPrograms streaminfo maxRetries 0"
    by (simp add: getCurrentChannelPrograms_def split: option.splits)
  have locked: "getCurrentChannelPrograms exec streaminfo deviceId tuner maxRetries
           = tryGetPrograms streaminfo maxRetries 0"
    if "\<exists>st. getTunerStatus exec deviceId tuner = Some st \<and> lock st \<and> channel st \<noteq> Some ''none''"
    using that by (auto simp: getCurrentChannelPrograms_def)
  have empty: "fst (getCurrentChannelPrograms exec streaminfo deviceId tuner maxRetries) = []
        \<and> snd (getCurrentChannelPrograms exec streaminfo deviceId tuner maxRetries)
            \<in> {0, Suc maxRetries}"
    if h: "\<forall>k\<le>maxRetries. streaminfo k = None \<or> parsePrograms (the (streaminfo k)) = []"
    using either loop [OF h] by auto
  have full: "getCurrentChannelPrograms exec streaminfo deviceId tuner maxRetries
          = ([], Suc maxRetries)"
    if h: "\<forall>k\<le>maxRetries. streaminfo k = None \<or> parsePrograms (the (streaminfo k)) = []"
      and l: "\<exists>st. getTunerStatus exec deviceId tuner = Some st \<and> lock st
                  \<and> channel st \<noteq> Some ''none''"
    using locked [OF l] loop [OF h] by simp
  from gate empty full show ?thesis by blast
qed

theorem programs_gated_witness:
  "getCurrentChannelPrograms idle_tuner never_answers ''10.0.0.5'' 0 3 = ([], 0)
   \<and> getCurrentChannelPrograms locked_tuner never_answers ''10.0.0.5'' 0 3 = ([], 4)"
proof -
  have i: "getTunerStatus idle_tuner ''10.0.0.5'' 0 = Some idle_status"
    by (simp add: getTunerStatus_def getStatusCommand_def idle_tuner_def answers_def falsy_def
          trim_def is_space_def idle_status_def)
  have l: "getTunerStatus locked_tuner ''10.0.0.5'' 0 = Some (parseStatusLine ''ch=8 lock=8vsb ss=71'')"
    by (simp add: getTunerStatus_def getStatusCommand_def locked_tuner_def answers_def falsy_def
          trim_def is_space_def addDebug_def)
  have p: "lock (parseStatusLine ''ch=8 lock=8vsb ss=71'')"
          "channel (parseStatusLine ''ch=8 lock=8vsb ss=71'') = Some ''8''"
    by (simp_all add: parseStatusLine_def non_space_def is_space_def)
  have n: "\<forall>k\<le>3. never_answers k = None \<or> parsePrograms (the (never_answers k)) = []"
    by (simp add: never_answers_def)
  from programs_gated [of idle_tuner "''10.0.0.5''" 0 never_answers 3] i
  have a: "getCurrentChannelPrograms idle_tuner never_answers ''10.0.0.5'' 0 3 = ([], 0)"
    by (simp add: idle_status_def)
  from programs_gated [of locked_tuner "''10.0.0.5''" 0 never_answers 3] l p n
  have b: "getCurrentChannelPrograms locked_tuner never_answers ''10.0.0.5'' 0 3 = ([], Suc 3)"
    by simp
  from a b show ?thesis by simp
qed

section \<open>Stopping a session\<close>

lemma stopMonitoring_no_session:
  "socket = None \<or> monitoringIntervals (ctrl r) (socket_id (the socket)) = None \<Longrightarrow>
   stopMonitoring socket r = r"
  by (cases socket) (auto simp: stopMonitoring_def Let_def dom_def falsy_def)

lemma stopMonitoring_removes:
  "socket_id so \<noteq> [] \<Longrightarrow>
   monitoringIntervals (ctrl (stopMonitoring (Some so) r)) (socket_id so) = None"
  by (auto simp: stopMonitoring_def Let_def falsy_def dom_def)

lemma stopMonitoring_clears:
  "socket_id so \<noteq> [] \<Longrightarrow> monitoringIntervals (ctrl r) (socket_id so) = Some h \<Longrightarrow>
   h \<notin> timers (stopMonitoring (Some so) r)"
  by (auto simp: stopMonitoring_def Let_def falsy_def dom_def)

lemma getDeviceByHost_sessions:
  "monitoringIntervals (snd (getDeviceByHost env host s)) = monitoringIntervals s"
  by (simp add: getDeviceByHost_def Let_def split: option.splits)

lemma getDevicesByHost_sessions:
  "monitoringIntervals (snd (getDevicesByHost env hosts s)) = monitoringIntervals s"
proof (induction hosts arbitrary: s)
  case Nil
  show ?case by simp
next
  case (Cons host hosts)
  obtain d s' where g: "getDeviceByHost env host s = (d, s')" by (cases "getDeviceByHost env host s")
  then have "monitoringIntervals s' = monitoringIntervals s"
    using getDeviceByHost_sessions [of env host s] by simp
  moreover have "snd (getDevicesByHost env (host # hosts) s) = snd (getDevicesByHost env hosts s')"
    using g by (simp split: prod.splits)
  ultimately show ?case using Cons.IH [of s'] by simp
qed

lemma autoDiscoverDevices_sessions:
  "monitoringIntervals (fst (snd (autoDiscoverDevices env forceRefresh s))) = monitoringIntervals s"
  by (simp add: autoDiscoverDevices_def Let_def)

lemma discoverDevices_sessions:
  "monitoringIntervals (fst (snd (discoverDevices env forceRefresh s))) = monitoringIntervals s"
proof -
  define s1 where "s1 = (if forceRefresh then s \<lparr> deviceNameCache := Map.empty \<rparr> else s)"
  define r where "r = (if HDHOMERUN_DISABLE_DISCOVERY env \<noteq> Some ''true''
                        then autoDiscoverDevices env forceRefresh s1 else ([], s1, 0))"
  have m1: "monitoringIntervals s1 = monitoringIntervals s" by (simp add: s1_def)
  have m2: "monitoringIntervals (fst (snd r)) = monitoringIntervals s"
    using m1 autoDiscoverDevices_sessions [of env forceRefresh s1] by (simp add: r_def)
  have "monitoringIntervals (fst (snd (discoverDevices env forceRefresh s)))
          = monitoringIntervals (snd (getDevicesByHost env (manualHosts env) (fst (snd r))))"
    by (simp add: discoverDevices_def r_def s1_def Let_def split: prod.splits)
  then show ?thesis using m2 getDevicesByHost_sessions by simp
qed

lemma stopMonitoring_ok: "sessions_ok r \<Longrightarrow> sessions_ok (stopMonitoring socket r)"
proof (cases "\<not> falsy (map_option socket_id socket)
                 \<and> the (map_option socket_id socket) \<in> dom (monitoringIntervals (ctrl r))")
  case False
  assume "sessions_ok r"
  moreover have "stopMonitoring socket r = r" using False by (auto simp: stopMonitoring_def Let_def)
  ultimately show ?thesis by simp
next
  case True
  assume ok: "sessions_ok r"
  define c where "c = the (map_option socket_id socket)"
  define m where "m = monitoringIntervals (ctrl r)"
  from True obtain h where h: "m c = Some h" by (auto simp: c_def m_def)
  have t: "timers (stopMonitoring socket r) = timers r - {h}"
    and m': "monitoringIntervals (ctrl (stopMonitoring socket r)) = m(c := None)"
    and n: "next_timer (stopMonitoring socket r) = next_timer r"
    using True h by (simp_all add: stopMonitoring_def Let_def c_def m_def)
  have inj: "\<forall>a b h. m a = Some h \<and> m b = Some h \<longrightarrow> a = b"
    and tr: "timers r = ran m" and lt: "\<forall>h\<in>timers r. h < next_timer r"
    using ok by (simp_all add: sessions_ok_def m_def)
  have "ran (m(c := None)) = ran m - {h}"
  proof (rule set_eqI)
    fix x
    show "x \<in> ran (m(c := None)) \<longleftrightarrow> x \<in> ran m - {h}"
    proof
      assume "x \<in> ran (m(c := None))"
      then obtain a where a: "a \<noteq> c" "m a = Some x" by (auto simp: ran_def split: if_splits)
      then have "x \<noteq> h" using inj h by blast
      then show "x \<in> ran m - {h}" using a by (auto simp: ran_def)
    next
      assume "x \<in> ran m - {h}"
      then obtain a where a: "m a = Some x" "x \<noteq> h" by (auto simp: ran_def)
      then have "a \<noteq> c" using h by auto
      then show "x \<in> ran (m(c := None))" using a by (auto simp: ran_def)
    qed
  qed
  then have "timers (stopMonitoring socket r) = ran (monitoringIntervals (ctrl (stopMonitoring socket r)))"
    using t m' tr by simp
  moreover have "\<forall>h\<in>timers (stopMonitoring socket r). h < next_timer (stopMonitoring socket r)"
    using t n lt by simp
  moreover have "\<forall>a b h. monitoringIntervals (ctrl (stopMonitoring socket r)) a = Some h
        \<and> monitoringIntervals (ctrl (stopMonitoring socket r)) b = Some h \<longrightarrow> a = b"
    unfolding m' using inj by (auto split: if_splits)
  ultimately show ?thesis unfolding sessions_ok_def by blast
qed

lemma start_session_ok:
  assumes "sessions_ok r" "socket_id so \<noteq> []"
  shows "sessions_ok (start_session so r)"
proof -
  define r0 where "r0 = stopMonitoring (Some so) r"
  define m where "m = monitoringIntervals (ctrl r0)"
  have ok0: "sessions_ok r0" unfolding r0_def using assms(1) by (rule stopMonitoring_ok)
  have gone: "m (socket_id so) = None"
    using assms(2) by (auto simp: m_def r0_def stopMonitoring_def Let_def falsy_def dom_def)
  have inj: "\<forall>a b h. m a = Some h \<and> m b = Some h \<longrightarrow> a = b"
    and tr: "timers r0 = ran m" and lt: "\<forall>h\<in>timers r0. h < next_timer r0"
    using ok0 by (simp_all add: sessions_ok_def m_def)
  have t: "timers (start_session so r) = insert (next_timer r0) (timers r0)"
    and m': "monitoringIntervals (ctrl (start_session so r)) = m(socket_id so \<mapsto> next_timer r0)"
    and n: "next_timer (start_session so r) = Suc (next_timer r0)"
    by (simp_all add: start_session_def setInterval_def r0_def m_def)
  have fresh: "next_timer r0 \<notin> ran m" using tr lt by auto
  have "ran (m(socket_id so \<mapsto> next_timer r0)) = insert (next_timer r0) (ran m)"
    using gone by simp
  then have a: "timers (start_session so r) = ran (monitoringIntervals (ctrl (start_session so r)))"
    using t m' tr by simp
  have b: "\<forall>h\<in>timers (start_session so r). h < next_timer (start_session so r)"
    using t n lt by auto
  have c: "\<forall>a b h. monitoringIntervals (ctrl (start_session so r)) a = Some h
        \<and> monitoringIntervals (ctrl (start_session so r)) b = Some h \<longrightarrow> a = b"
  proof (intro allI impI)
    fix a b h
    assume h: "monitoringIntervals (ctrl (start_session so r)) a = Some h
        \<and> monitoringIntervals (ctrl (start_session so r)) b = Some h"
    show "a = b"
    proof (cases "h = next_timer r0")
      case True
      then have "a = socket_id so" "b = socket_id so"
        using h fresh unfolding m' by (auto simp: ran_def split: if_splits)
      then show ?thesis by simp
    next
      case False
      then have "m a = Some h" "m b = Some h" using h unfolding m' by (auto split: if_splits)
      then show ?thesis using inj by blast
    qed
  qed
  from a b c show ?thesis unfolding sessions_ok_def by blast
qed

lemma running_ok: "running r \<Longrightarrow> sessions_ok r"
proof (induction rule: running.induct)
  case boot
  show ?case by (simp add: sessions_ok_def booted_def new_controller_def)
next
  case (started r so deviceId tuner)
  then show ?case by (simp add: startMonitoring_def start_session_ok)
next
  case (antenna r so deviceId tunerCount)
  then show ?case by (simp add: startAntennaMode_def start_session_ok)
next
  case (stopped r socket)
  then show ?case by (simp add: stopMonitoring_ok)
next
  case (listed r env forceRefresh)
  then show ?case by (simp add: sessions_ok_def discoverDevices_sessions)
qed

text \<open>
  Claim C8. \<open>stopMonitoring\<close> is idempotent for every client and every state: a second
  call changes nothing; with no session for the client (or no client at all) the state
  is unchanged; and after it the client, whose socket id is a non-empty string as the
  socket library assigns it, has no entry left and the timer that was recorded for it
  is cancelled, after one call as after two. In every state the server can be in, the
  timers live after the call are exactly the ones recorded for the sessions that remain,
  so none is left over for this client. The function is total: it cannot fail.
\<close>

theorem stopMonitoring_idempotent:
  "stopMonitoring socket (stopMonitoring socket r) = stopMonitoring socket r
   \<and> (socket = None \<or> monitoringIntervals (ctrl r) (socket_id (the socket)) = None \<longrightarrow>
        stopMonitoring socket r = r)
   \<and> (\<forall>so. socket = Some so \<and> socket_id so \<noteq> [] \<longrightarrow>
        monitoringIntervals (ctrl (stopMonitoring socket r)) (socket_id so) = None
        \<and> (\<forall>h. monitoringIntervals (ctrl r) (socket_id so) = Some h \<longrightarrow>
               h \<notin> timers (stopMonitoring socket r)
               \<and> h \<notin> timers (stopMonitoring socket (stopMonitoring socket r))))
   \<and> (running r \<longrightarrow>
        timers (stopMonitoring socket r)
          = ran (monitoringIntervals (ctrl (stopMonitoring socket r))))"
proof -
  have live: "running r \<longrightarrow>
        timers (stopMonitoring socket r)
          = ran (monitoringIntervals (ctrl (stopMonitoring socket r)))"
    using stopMonitoring_ok [OF running_ok, of r socket] by (simp add: sessions_ok_def)
  have twice: "stopMonitoring socket (stopMonitoring socket r) = stopMonitoring socket r"
  proof (cases "\<not> falsy (map_option socket_id socket)
                 \<and> the (map_option socket_id socket) \<in> dom (monitoringIntervals (ctrl r))")
    case True
    then have "the (map_option socket_id socket)
                 \<notin> dom (monitoringIntervals (ctrl (stopMonitoring socket r)))"
      by (simp add: stopMonitoring_def Let_def)
    then show ?thesis
      by (subst stopMonitoring_def) (simp add: Let_def)
  next
    case False
    then have "stopMonitoring socket r = r"
      by (auto simp: stopMonitoring_def Let_def)
    then show ?thesis by simp
  qed
  have r2: "socket = None \<or> monitoringIntervals (ctrl r) (socket_id (the socket)) = None \<longrightarrow>
        stopMonitoring socket r = r"
    using stopMonitoring_no_session [of socket r] by (rule impI)
  have r3: "\<forall>so. socket = Some so \<and> socket_id so \<noteq> [] \<longrightarrow>
        monitoringIntervals (ctrl (stopMonitoring socket r)) (socket_id so) = None
        \<and> (\<forall>h. monitoringIntervals (ctrl r) (socket_id so) = Some h \<longrightarrow>
               h \<notin> timers (stopMonitoring socket r)
               \<and> h \<notin> timers (stopMonitoring socket (stopMonitoring socket r)))"
    using twice stopMonitoring_removes [of _ r] stopMonitoring_clears [of _ r] by auto
  show ?thesis by (intro conjI twice r2 r3 live)
qed

theorem stopMonitoring_idempotent_witness:
  "stopMonitoring (Some (Socket ''sock-A'')) sample_runtime
     = \<lparr> ctrl = new_controller, timers = {}, next_timer = 8 \<rparr>
   \<and> stopMonitoring (Some (Socket ''sock-A''))
        (stopMonitoring (Some (Socket ''sock-A'')) sample_runtime)
     = \<lparr> ctrl = new_controller, timers = {}, next_timer = 8 \<rparr>
   \<and> stopMonitoring (Some (Socket ''sock-B'')) sample_runtime = sample_runtime
   \<and> stopMonitoring None sample_runtime = sample_runtime
   \<and> running (startMonitoring (Socket ''sock-A'') ''10.0.0.5'' 0 booted)
   \<and> timers (stopMonitoring (Some (Socket ''sock-A''))
               (startMonitoring (Socket ''sock-A'') ''10.0.0.5'' 0 booted)) = {}"
proof -
  have r: "running (startMonitoring (Socket ''sock-A'') ''10.0.0.5'' 0 booted)"
    by (rule running.started [OF running.boot]) simp
  have m: "monitoringIntervals (ctrl (stopMonitoring (Some (Socket ''sock-A''))
               (startMonitoring (Socket ''sock-A'') ''10.0.0.5'' 0 booted))) = Map.empty"
    by (simp add: stopMonitoring_def startMonitoring_def start_session_def setInterval_def
          booted_def new_controller_def falsy_def Let_def)
  from stopMonitoring_idempotent [of "Some (Socket ''sock-A'')"
         "startMonitoring (Socket ''sock-A'') ''10.0.0.5'' 0 booted"] r
  have c: "timers (stopMonitoring (Some (Socket ''sock-A''))
               (startMonitoring (Socket ''sock-A'') ''10.0.0.5'' 0 booted)) = {}"
    unfolding m by simp
  have a: "stopMonitoring (Some (Socket ''sock-A'')) sample_runtime
     = \<lparr> ctrl = new_controller, timers = {}, next_timer = 8 \<rparr>"
    by (simp add: stopMonitoring_def sample_runtime_def new_controller_def falsy_def Let_def)
  have b: "monitoringIntervals (ctrl sample_runtime) (socket_id (the (Some (Socket ''sock-B'')))) = None"
    by (simp add: sample_runtime_def new_controller_def)
  from stopMonitoring_idempotent [of "Some (Socket ''sock-A'')" sample_runtime]
       stopMonitoring_idempotent [of "Some (Socket ''sock-B'')" sample_runtime]
       stopMonitoring_idempotent [of None sample_runtime]
  show ?thesis using a b r c by simp
qed

section \<open>Merging the discovered devices\<close>

lemma find_distinct:
  "distinct (map f xs) \<Longrightarrow> x \<in> set xs \<Longrightarrow> find (\<lambda>y. f y = f x) xs = Some x"
  by (induction xs) (auto simp: image_iff)

lemma find_app:
  "find P (xs @ ys) = (case find P xs of None \<Rightarrow> find P ys | Some x \<Rightarrow> Some x)"
  by (induction xs) auto

lemma filter_distinct_find:
  "distinct (map f xs) \<Longrightarrow> find (\<lambda>y. f y = i) xs = Some x \<Longrightarrow> filter (\<lambda>y. f y = i) xs = [x]"
proof (induction xs)
  case Nil
  then show ?case by simp
next
  case (Cons a xs)
  show ?case
  proof (cases "f a = i")
    case True
    then have "a = x" using Cons.prems(2) by simp
    moreover have "filter (\<lambda>y. f y = i) xs = []"
      using Cons.prems(1) True by (auto simp: filter_empty_conv image_iff)
    ultimately show ?thesis using True by simp
  next
    case False
    then show ?thesis using Cons by simp
  qed
qed

lemma fold_addDevice:
  "\<exists>news. fold addDevice ds (S, acc) = (S \<union> id_dev ` set ds, acc @ news)
      \<and> set news \<subseteq> set ds
      \<and> id_dev ` set news = id_dev ` set ds - S
      \<and> distinct (map id_dev news)
      \<and> (\<forall>d\<in>set news. find (\<lambda>x. id_dev x = id_dev d) ds = Some d)"
proof (induction ds arbitrary: S acc)
  case Nil
  show ?case by simp
next
  case (Cons d ds)
  show ?case
  proof (cases "id_dev d \<in> S")
    case True
    from Cons.IH [of S acc] obtain news where n:
      "fold addDevice ds (S, acc) = (S \<union> id_dev ` set ds, acc @ news)"
      "set news \<subseteq> set ds" "id_dev ` set news = id_dev ` set ds - S"
      "distinct (map id_dev news)"
      "\<forall>x\<in>set news. find (\<lambda>y. id_dev y = id_dev x) ds = Some x"
      by blast
    have step: "fold addDevice (d # ds) (S, acc) = fold addDevice ds (S, acc)"
      using True by (simp add: addDevice_def)
    have f: "\<forall>x\<in>set news. find (\<lambda>y. id_dev y = id_dev x) (d # ds) = Some x"
    proof
      fix x assume x: "x \<in> set news"
      then have "id_dev x \<notin> S" using n(3) by blast
      then have "id_dev d \<noteq> id_dev x" using True by auto
      then show "find (\<lambda>y. id_dev y = id_dev x) (d # ds) = Some x"
        using n(5) x by simp
    qed
    have "fold addDevice (d # ds) (S, acc) = (S \<union> id_dev ` set (d # ds), acc @ news)"
      using step n(1) True by auto
    moreover have "set news \<subseteq> set (d # ds)" using n(2) by auto
    moreover have "id_dev ` set news = id_dev ` set (d # ds) - S" using n(3) True by auto
    ultimately show ?thesis using n(4) f by blast
  next
    case False
    from Cons.IH [of "insert (id_dev d) S" "acc @ [d]"] obtain news where n:
      "fold addDevice ds (insert (id_dev d) S, acc @ [d])
         = (insert (id_dev d) S \<union> id_dev ` set ds, (acc @ [d]) @ news)"
      "set news \<subseteq> set ds" "id_dev ` set news = id_dev ` set ds - insert (id_dev d) S"
      "distinct (map id_dev news)"
      "\<forall>x\<in>set news. find (\<lambda>y. id_dev y = id_dev x) ds = Some x"
      by blast
    have step: "fold addDevice (d # ds) (S, acc) = fold addDevice ds (insert (id_dev d) S, acc @ [d])"
      using False by (simp add: addDevice_def)
    have notin: "id_dev d \<notin> id_dev ` set news" using n(3) by blast
    have f: "\<forall>x\<in>set (d # news). find (\<lambda>y. id_dev y = id_dev x) (d # ds) = Some x"
    proof
      fix x assume x: "x \<in> set (d # news)"
      show "find (\<lambda>y. id_dev y = id_dev x) (d # ds) = Some x"
      proof (cases "x = d")
        case True
        then show ?thesis by simp
      next
        case False
        then have xn: "x \<in> set news" using x by simp
        then have "id_dev d \<noteq> id_dev x" using notin by force
        then show ?thesis using n(5) xn by simp
      qed
    qed
    have "fold addDevice (d # ds) (S, acc) = (S \<union> id_dev ` set (d # ds), acc @ (d # news))"
      using step n(1) by auto
    moreover have "set (d # news) \<subseteq> set (d # ds)" using n(2) by auto
    moreover have "id_dev ` set (d # news) = id_dev ` set (d # ds) - S"
      using n(3) False by auto
    moreover have "distinct (map id_dev (d # news))" using n(4) notin by simp
    ultimately show ?thesis using f by blast
  qed
qed

lemma mergeDevices_append:
  "mergeDevices autoDiscovered manualResults = mergeDevices (autoDiscovered @ manualResults) []"
  by (simp add: mergeDevices_def)

lemma mergeDevices_single:
  "distinct (map id_dev (mergeDevices ds []))
   \<and> set (mergeDevices ds []) \<subseteq> set ds
   \<and> id_dev ` set (mergeDevices ds []) = id_dev ` set ds
   \<and> (\<forall>d\<in>set (mergeDevices ds []). find (\<lambda>x. id_dev x = id_dev d) ds = Some d)"
  using fold_addDevice [of ds "{}" "[]"] by (auto simp: mergeDevices_def)

lemma mergeDevices_find:
  "find (\<lambda>d. id_dev d = i) (mergeDevices ds []) = find (\<lambda>d. id_dev d = i) ds"
proof (cases "i \<in> id_dev ` set ds")
  case True
  then have "i \<in> id_dev ` set (mergeDevices ds [])" using mergeDevices_single [of ds] by simp
  then obtain d where d: "d \<in> set (mergeDevices ds [])" "id_dev d = i" by auto
  then have "find (\<lambda>x. id_dev x = id_dev d) ds = Some d" using mergeDevices_single [of ds] by blast
  moreover have "find (\<lambda>x. id_dev x = id_dev d) (mergeDevices ds []) = Some d"
    using find_distinct [of id_dev "mergeDevices ds []" d] mergeDevices_single [of ds] d(1) by blast
  ultimately show ?thesis using d(2) by simp
next
  case False
  then have "i \<notin> id_dev ` set (mergeDevices ds [])" using mergeDevices_single [of ds] by simp
  then have "find (\<lambda>d. id_dev d = i) (mergeDevices ds []) = None"
    by (auto simp: find_None_iff)
  moreover have "find (\<lambda>d. id_dev d = i) ds = None"
    using False by (auto simp: find_None_iff)
  ultimately show ?thesis by simp
qed

lemma mergeDevices_auto_first:
  "\<exists>rest. mergeDevices autoDiscovered manualResults = mergeDevices autoDiscovered [] @ rest
     \<and> set rest \<subseteq> set manualResults
     \<and> id_dev ` set rest = id_dev ` set manualResults - id_dev ` set autoDiscovered"
proof -
  from fold_addDevice [of autoDiscovered "{}" "[]"] obtain a where a:
    "fold addDevice autoDiscovered ({}, []) = (id_dev ` set autoDiscovered, a)"
    by auto
  from fold_addDevice [of manualResults "id_dev ` set autoDiscovered" a] obtain rest where r:
    "fold addDevice manualResults (id_dev ` set autoDiscovered, a)
       = (id_dev ` set autoDiscovered \<union> id_dev ` set manualResults, a @ rest)"
    "set rest \<subseteq> set manualResults"
    "id_dev ` set rest = id_dev ` set manualResults - id_dev ` set autoDiscovered"
    by blast
  have "mergeDevices autoDiscovered [] = a" using a by (simp add: mergeDevices_def)
  moreover have "mergeDevices autoDiscovered manualResults = a @ rest"
    using a r(1) by (simp add: mergeDevices_def)
  ultimately show ?thesis using r(2,3) by blast
qed

lemma discoverDevices_lists:
  "fst (discoverDevices env forceRefresh s)
     = mergeDevices (fst (discovery_lists env forceRefresh s)) (snd (discovery_lists env forceRefresh s))"
  by (simp add: discoverDevices_def discovery_lists_def Let_def split: prod.splits)

text \<open>
  Claim C5. The list that \<open>discoverDevices\<close> returns has pairwise distinct device ids;
  the auto-discovered devices come first, followed by manually configured ones only;
  for every id the entry kept is the first one seen, the auto-discovered list being
  seen before the manual one; so when a manual device has the id of an auto-discovered
  device, the list has exactly one entry with that id, the auto-discovered one.
\<close>

theorem discover_first_seen_wins:
  "(case discovery_lists env forceRefresh s of
      (autoDiscovered, manualResults) \<Rightarrow>
        let devs = fst (discoverDevices env forceRefresh s) in
        distinct (map id_dev devs)
        \<and> set devs \<subseteq> set autoDiscovered \<union> set manualResults
        \<and> id_dev ` set devs = id_dev ` (set autoDiscovered \<union> set manualResults)
        \<and> (\<exists>rest. devs = mergeDevices autoDiscovered [] @ rest \<and> set rest \<subseteq> set manualResults
               \<and> id_dev ` set rest = id_dev ` set manualResults - id_dev ` set autoDiscovered)
        \<and> id_dev ` set (mergeDevices autoDiscovered []) = id_dev ` set autoDiscovered
        \<and> (\<forall>i. find (\<lambda>d. id_dev d = i) devs
                 = find (\<lambda>d. id_dev d = i) (autoDiscovered @ manualResults))
        \<and> (\<forall>m\<in>set manualResults. id_dev m \<in> id_dev ` set autoDiscovered \<longrightarrow>
              filter (\<lambda>d. id_dev d = id_dev m) devs
                = [the (find (\<lambda>d. id_dev d = id_dev m) autoDiscovered)]
              \<and> the (find (\<lambda>d. id_dev d = id_dev m) autoDiscovered) \<in> set autoDiscovered))"
proof -
  obtain a m where l: "discovery_lists env forceRefresh s = (a, m)" by (cases "discovery_lists env forceRefresh s")
  define devs where "devs = fst (discoverDevices env forceRefresh s)"
  have devs: "devs = mergeDevices (a @ m) []"
    unfolding devs_def discoverDevices_lists l using mergeDevices_append [of a m] by simp
  have p1: "distinct (map id_dev devs)" and p2: "set devs \<subseteq> set a \<union> set m"
    and p3: "id_dev ` set devs = id_dev ` (set a \<union> set m)"
    using mergeDevices_single [of "a @ m"] unfolding devs by auto
  have p4: "\<exists>rest. devs = mergeDevices a [] @ rest \<and> set rest \<subseteq> set m
               \<and> id_dev ` set rest = id_dev ` set m - id_dev ` set a"
    using mergeDevices_auto_first [of a m] unfolding devs mergeDevices_append [symmetric] .
  have p5: "id_dev ` set (mergeDevices a []) = id_dev ` set a"
    using mergeDevices_single [of a] by simp
  have p6: "find (\<lambda>d. id_dev d = i) devs = find (\<lambda>d. id_dev d = i) (a @ m)" for i
    unfolding devs by (rule mergeDevices_find)
  have p7: "filter (\<lambda>d. id_dev d = id_dev x) devs = [the (find (\<lambda>d. id_dev d = id_dev x) a)]
              \<and> the (find (\<lambda>d. id_dev d = id_dev x) a) \<in> set a"
    if "x \<in> set m" "id_dev x \<in> id_dev ` set a" for x
  proof -
    from that(2) obtain y where y: "find (\<lambda>d. id_dev d = id_dev x) a = Some y"
      by (cases "find (\<lambda>d. id_dev d = id_dev x) a") (auto simp: find_None_iff)
    then have "find (\<lambda>d. id_dev d = id_dev x) (a @ m) = Some y"
      by (simp add: find_app)
    then have "find (\<lambda>d. id_dev d = id_dev x) devs = Some y" using p6 by simp
    then have "filter (\<lambda>d. id_dev d = id_dev x) devs = [y]"
      using filter_distinct_find [OF p1] by blast
    moreover have "y \<in> set a" using y by (auto simp: find_Some_iff)
    ultimately show ?thesis using y by simp
  qed
  show ?thesis
    unfolding l using p1 p2 p3 p4 p5 p6 p7 by (simp add: devs_def [symmetric] Let_def)
qed

lemma collision_lists:
  "discovery_lists collision_env True new_controller
     = ([cloud_tuner], [offline_device ''192.168.1.5'', offline_device ''192.168.1.7''])"
  by code_simp

lemma collision_result:
  "fst (discoverDevices collision_env True new_controller)
     = [cloud_tuner, offline_device ''192.168.1.7'']"
  by code_simp

theorem discover_first_seen_wins_witness:
  "discovery_lists collision_env True new_controller
     = ([cloud_tuner], [offline_device ''192.168.1.5'', offline_device ''192.168.1.7''])
   \<and> offline_device ''192.168.1.5'' \<in> set [offline_device ''192.168.1.5'', offline_device ''192.168.1.7'']
   \<and> id_dev (offline_device ''192.168.1.5'') \<in> id_dev ` set [cloud_tuner]
   \<and> fst (discoverDevices collision_env True new_controller)
        = [cloud_tuner, offline_device ''192.168.1.7'']
   \<and> distinct (map id_dev (fst (discoverDevices collision_env True new_controller)))
   \<and> filter (\<lambda>d. id_dev d = ''192.168.1.5'') (fst (discoverDevices collision_env True new_controller))
        = [cloud_tuner]"
proof -
  have i: "id_dev (offline_device ''192.168.1.5'') = ''192.168.1.5''" "id_dev cloud_tuner = ''192.168.1.5''"
    by (simp_all add: offline_device_def cloud_tuner_def)
  from discover_first_seen_wins [of collision_env True new_controller]
  show ?thesis
    unfolding collision_lists using collision_result i by (simp add: Let_def)
qed

section \<open>Manually configured hosts\<close>

lemma getDeviceByHost_id:
  "cache_keyed s \<Longrightarrow> id_dev (fst (getDeviceByHost env host s)) = host"
  by (auto simp: getDeviceByHost_def cache_keyed_def Let_def split: option.splits)

lemma getDeviceByHost_keyed:
  "cache_keyed s \<Longrightarrow> cache_keyed (snd (getDeviceByHost env host s))"
  by (auto simp: getDeviceByHost_def cache_keyed_def Let_def split: option.splits)

lemma getDevicesByHost_keyed:
  "cache_keyed s \<Longrightarrow> cache_keyed (snd (getDevicesByHost env hosts s))"
proof (induction hosts arbitrary: s)
  case Nil
  then show ?case by simp
next
  case (Cons host hosts)
  obtain d s' where g: "getDeviceByHost env host s = (d, s')" by (cases "getDeviceByHost env host s")
  then have "cache_keyed s'" using getDeviceByHost_keyed [OF Cons.prems, of env host] by simp
  then have "cache_keyed (snd (getDevicesByHost env hosts s'))" by (rule Cons.IH)
  moreover have "snd (getDevicesByHost env (host # hosts) s) = snd (getDevicesByHost env hosts s')"
    using g by (simp split: prod.splits)
  ultimately show ?case by simp
qed

lemma autoDiscoverDevices_keyed:
  "cache_keyed s \<Longrightarrow> cache_keyed (fst (snd (autoDiscoverDevices env forceRefresh s)))"
  by (simp add: autoDiscoverDevices_def cache_keyed_def Let_def)

lemma discoverDevices_keyed:
  assumes "cache_keyed s"
  shows "cache_keyed (fst (snd (discoverDevices env forceRefresh s)))"
proof -
  define s1 where "s1 = (if forceRefresh then s \<lparr> deviceNameCache := Map.empty \<rparr> else s)"
  have k1: "cache_keyed s1" using assms by (simp add: s1_def cache_keyed_def)
  define r where "r = (if HDHOMERUN_DISABLE_DISCOVERY env \<noteq> Some ''true''
                        then autoDiscoverDevices env forceRefresh s1 else ([], s1, 0))"
  have k2: "cache_keyed (fst (snd r))"
    using k1 autoDiscoverDevices_keyed [OF k1, of env forceRefresh] by (simp add: r_def)
  have k3: "cache_keyed (snd (getDevicesByHost env (manualHosts env) (fst (snd r))))"
    using k2 by (rule getDevicesByHost_keyed)
  have "deviceNameCache (fst (snd (discoverDevices env forceRefresh s)))
          = deviceNameCache (snd (getDevicesByHost env (manualHosts env) (fst (snd r))))"
    by (simp add: discoverDevices_def r_def s1_def Let_def split: prod.splits)
  then show ?thesis using k3 by (simp add: cache_keyed_def)
qed

lemma reachable_keyed: "reachable s \<Longrightarrow> cache_keyed s"
proof (induction rule: reachable.induct)
  case constructed
  show ?case by (simp add: cache_keyed_def new_controller_def)
next
  case (discovered s env forceRefresh)
  then show ?case by (simp add: discoverDevices_keyed)
next
  case (looked_up s env host)
  then show ?case by (simp add: getDeviceByHost_keyed)
next
  case (sessions s m)
  then show ?case by (simp add: cache_keyed_def)
qed

text \<open>
  Claim C4. In every state the controller can be in, \<open>getDeviceByHost\<close> resolves to a
  device whose id is the configured host string, whether the host answers or not and
  whatever the secondary discovery query prints, which can only change the name. When
  the model query fails (it is issued when the cache has no fresh entry for the host),
  the result is the placeholder with id and ip the host and \<open>online\<close> false, and that
  placeholder is stored in the cache under the host; the promise always resolves.
\<close>

theorem manual_host_identity:
  assumes "reachable s"
  shows "id_dev (fst (getDeviceByHost env host s)) = host
   \<and> (\<not> cache_fresh env s host \<and> hwmodel env host = None \<longrightarrow>
        fst (getDeviceByHost env host s) = offline_device host
        \<and> \<not> online (fst (getDeviceByHost env host s))
        \<and> deviceNameCache (snd (getDeviceByHost env host s)) host
            = Some \<lparr> device = offline_device host, timestamp = now_stored env \<rparr>)
   \<and> (\<not> cache_fresh env s host \<and> hwmodel env host \<noteq> None \<longrightarrow>
        ip (fst (getDeviceByHost env host s)) = host
        \<and> online (fst (getDeviceByHost env host s))
        \<and> deviceNameCache (snd (getDeviceByHost env host s)) host
            = Some \<lparr> device = fst (getDeviceByHost env host s), timestamp = now_stored env \<rparr>)
   \<and> (cache_fresh env s host \<longrightarrow>
        getDeviceByHost env host s = (device (the (deviceNameCache s host)), s))
   \<and> (\<forall>out n. (fst (getDeviceByHost (env \<lparr> discover_stdout := out \<rparr>) host s)) \<lparr> name := n \<rparr>
               = (fst (getDeviceByHost env host s)) \<lparr> name := n \<rparr>)"
proof -
  have k: "cache_keyed s" using assms by (rule reachable_keyed)
  have a: "id_dev (fst (getDeviceByHost env host s)) = host"
    using k by (rule getDeviceByHost_id)
  have b: "\<not> cache_fresh env s host \<and> hwmodel env host = None \<longrightarrow>
        fst (getDeviceByHost env host s) = offline_device host
        \<and> \<not> online (fst (getDeviceByHost env host s))
        \<and> deviceNameCache (snd (getDeviceByHost env host s)) host
            = Some \<lparr> device = offline_device host, timestamp = now_stored env \<rparr>"
    by (auto simp: getDeviceByHost_def cache_fresh_def offline_device_def Let_def)
  have c: "\<not> cache_fresh env s host \<and> hwmodel env host \<noteq> None \<longrightarrow>
        ip (fst (getDeviceByHost env host s)) = host
        \<and> online (fst (getDeviceByHost env host s))
        \<and> deviceNameCache (snd (getDeviceByHost env host s)) host
            = Some \<lparr> device = fst (getDeviceByHost env host s), timestamp = now_stored env \<rparr>"
    by (auto simp: getDeviceByHost_def cache_fresh_def Let_def)
  have d: "cache_fresh env s host \<longrightarrow>
        getDeviceByHost env host s = (device (the (deviceNameCache s host)), s)"
    by (auto simp: getDeviceByHost_def cache_fresh_def Let_def)
  have e: "(fst (getDeviceByHost (env \<lparr> discover_stdout := out \<rparr>) host s)) \<lparr> name := n \<rparr>
               = (fst (getDeviceByHost env host s)) \<lparr> name := n \<rparr>" for out n
    by (auto simp: getDeviceByHost_def Let_def split: option.splits)
  from a b c d e show ?thesis by blast
qed

theorem manual_host_identity_witness:
  "reachable new_controller
   \<and> getDeviceByHost cloud_only_env ''192.168.1.7'' new_controller
       = (offline_device ''192.168.1.7'',
          new_controller \<lparr> deviceNameCache :=
             [''192.168.1.7'' \<mapsto> \<lparr> device = offline_device ''192.168.1.7'', timestamp = 1001 \<rparr>] \<rparr>)
   \<and> id_dev (fst (getDeviceByHost cloud_only_env ''192.168.1.7'' new_controller)) = ''192.168.1.7''"
proof -
  have f: "\<not> cache_fresh cloud_only_env new_controller ''192.168.1.7''"
    "hwmodel cloud_only_env ''192.168.1.7'' = None"
    by (simp_all add: cache_fresh_def new_controller_def cloud_only_env_def)
  have g: "getDeviceByHost cloud_only_env ''192.168.1.7'' new_controller
       = (offline_device ''192.168.1.7'',
          new_controller \<lparr> deviceNameCache :=
             [''192.168.1.7'' \<mapsto> \<lparr> device = offline_device ''192.168.1.7'', timestamp = 1001 \<rparr>] \<rparr>)"
    by (simp add: getDeviceByHost_def new_controller_def cloud_only_env_def offline_device_def Let_def)
  from manual_host_identity [OF reachable.constructed, of cloud_only_env "''192.168.1.7''"] f g
  show ?thesis by (simp add: reachable.constructed)
qed

section \<open>Devices from the cloud fallback\<close>

lemma httpDiscoverDevices_entries:
  "cloud_response env = Some entries \<Longrightarrow>
   httpDiscoverDevices env =
     map (\<lambda>e. \<lparr> id_dev = LocalIP e, ip = LocalIP e,
                name = tuner_name (the (DeviceID e)) (getDeviceModel env (LocalIP e)),
                online = True \<rparr>)
         (filter has_DeviceID entries)"
  by (simp add: httpDiscoverDevices_def has_DeviceID_def [abs_def] Let_def)

lemma discoverDevices_cloud_only:
  assumes "udpDiscoverDevices env = []" "forceRefresh \<or> httpDiscoveryCache s = None"
    "HDHOMERUN_DISABLE_DISCOVERY env \<noteq> Some ''true''" "manualHosts env = []"
  shows "fst (discoverDevices env forceRefresh s) = mergeDevices (httpDiscoverDevices env) []"
proof -
  define s1 where "s1 = (if forceRefresh then s \<lparr> deviceNameCache := Map.empty \<rparr> else s)"
  have "forceRefresh \<or> httpDiscoveryCache s1 = None" using assms(2) by (auto simp: s1_def)
  then have "fst (autoDiscoverDevices env forceRefresh s1) = httpDiscoverDevices env"
    using assms(1) by (auto simp: autoDiscoverDevices_def Let_def)
  then obtain s2 n where a: "autoDiscoverDevices env forceRefresh s1 = (httpDiscoverDevices env, s2, n)"
    by (cases "autoDiscoverDevices env forceRefresh s1") auto
  have "fst (discoverDevices env forceRefresh s)
          = mergeDevices (httpDiscoverDevices env) (fst (getDevicesByHost env [] s2))"
    unfolding discoverDevices_def s1_def [symmetric] Let_def assms(4)
    using assms(3) a by (simp split: prod.splits)
  then show ?thesis by simp
qed

text \<open>
  Claim C10. A device that comes from the cloud fallback has both its id and its ip set
  to the local address that its entry reports; the vendor's device id reaches the name
  only; entries without a device id are left out. So the merge of \<open>discoverDevices\<close>
  keeps one device per address, the first listed, and not one per hardware id.
\<close>

theorem cloud_devices_by_ip:
  assumes "cloud_response env = Some entries"
  shows "map id_dev (httpDiscoverDevices env) = map LocalIP (filter has_DeviceID entries)
   \<and> map ip (httpDiscoverDevices env) = map LocalIP (filter has_DeviceID entries)
   \<and> map name (httpDiscoverDevices env)
       = map (\<lambda>e. tuner_name (the (DeviceID e)) (getDeviceModel env (LocalIP e)))
             (filter has_DeviceID entries)
   \<and> (\<forall>d\<in>set (httpDiscoverDevices env). online d \<and> id_dev d = ip d)
   \<and> distinct (map id_dev (mergeDevices (httpDiscoverDevices env) []))
   \<and> id_dev ` set (mergeDevices (httpDiscoverDevices env) [])
       = LocalIP ` {e \<in> set entries. has_DeviceID e}
   \<and> (\<forall>i. find (\<lambda>d. id_dev d = i) (mergeDevices (httpDiscoverDevices env) [])
            = find (\<lambda>d. id_dev d = i) (httpDiscoverDevices env))
   \<and> (udpDiscoverDevices env = [] \<and> (forceRefresh \<or> httpDiscoveryCache s = None)
        \<and> HDHOMERUN_DISABLE_DISCOVERY env \<noteq> Some ''true'' \<and> manualHosts env = [] \<longrightarrow>
        fst (discoverDevices env forceRefresh s) = mergeDevices (httpDiscoverDevices env) [])"
proof -
  note h = httpDiscoverDevices_entries [OF assms]
  have a: "map id_dev (httpDiscoverDevices env) = map LocalIP (filter has_DeviceID entries)"
    and b: "map ip (httpDiscoverDevices env) = map LocalIP (filter has_DeviceID entries)"
    and c: "map name (httpDiscoverDevices env)
       = map (\<lambda>e. tuner_name (the (DeviceID e)) (getDeviceModel env (LocalIP e)))
             (filter has_DeviceID entries)"
    and d: "\<forall>d\<in>set (httpDiscoverDevices env). online d \<and> id_dev d = ip d"
    unfolding h by (auto simp: comp_def)
  have e: "distinct (map id_dev (mergeDevices (httpDiscoverDevices env) []))"
    using mergeDevices_single [of "httpDiscoverDevices env"] by blast
  have "id_dev ` set (mergeDevices (httpDiscoverDevices env) []) = set (map id_dev (httpDiscoverDevices env))"
    using mergeDevices_single [of "httpDiscoverDevices env"] by simp
  then have f: "id_dev ` set (mergeDevices (httpDiscoverDevices env) [])
       = LocalIP ` {e \<in> set entries. has_DeviceID e}"
    unfolding a by auto
  have g: "\<forall>i. find (\<lambda>d. id_dev d = i) (mergeDevices (httpDiscoverDevices env) [])
            = find (\<lambda>d. id_dev d = i) (httpDiscoverDevices env)"
    by (simp add: mergeDevices_find)
  have i: "udpDiscoverDevices env = [] \<and> (forceRefresh \<or> httpDiscoveryCache s = None)
        \<and> HDHOMERUN_DISABLE_DISCOVERY env \<noteq> Some ''true'' \<and> manualHosts env = [] \<longrightarrow>
        fst (discoverDevices env forceRefresh s) = mergeDevices (httpDiscoverDevices env) []"
    using discoverDevices_cloud_only by blast
  from a b c d e f g i show ?thesis by blast
qed

theorem cloud_devices_by_ip_witness:
  "httpDiscoverDevices cloud_dupes_env =
     [\<lparr> id_dev = ''192.168.1.5'', ip = ''192.168.1.5'', name = ''HDHomeRun 1075D4B1'', online = True \<rparr>,
      \<lparr> id_dev = ''192.168.1.5'', ip = ''192.168.1.5'', name = ''HDHomeRun 10A0FFEE'', online = True \<rparr>,
      \<lparr> id_dev = ''192.168.1.6'', ip = ''192.168.1.6'', name = ''HDHomeRun 1075D4B1'', online = True \<rparr>]
   \<and> fst (discoverDevices cloud_dupes_env True new_controller) =
     [\<lparr> id_dev = ''192.168.1.5'', ip = ''192.168.1.5'', name = ''HDHomeRun 1075D4B1'', online = True \<rparr>,
      \<lparr> id_dev = ''192.168.1.6'', ip = ''192.168.1.6'', name = ''HDHomeRun 1075D4B1'', online = True \<rparr>]"
proof -
  have r: "cloud_response cloud_dupes_env =
        Some [\<lparr> DeviceID = Some ''1075D4B1'', LocalIP = ''192.168.1.5'' \<rparr>,
              \<lparr> DeviceID = Some ''10A0FFEE'', LocalIP = ''192.168.1.5'' \<rparr>,
              \<lparr> DeviceID = Some ''1075D4B1'', LocalIP = ''192.168.1.6'' \<rparr>,
              \<lparr> DeviceID = None, LocalIP = ''192.168.1.9'' \<rparr>,
              \<lparr> DeviceID = Some [], LocalIP = ''192.168.1.10'' \<rparr>]"
    by (simp add: cloud_dupes_env_def)
  have h: "httpDiscoverDevices cloud_dupes_env =
     [\<lparr> id_dev = ''192.168.1.5'', ip = ''192.168.1.5'', name = ''HDHomeRun 1075D4B1'', online = True \<rparr>,
      \<lparr> id_dev = ''192.168.1.5'', ip = ''192.168.1.5'', name = ''HDHomeRun 10A0FFEE'', online = True \<rparr>,
      \<lparr> id_dev = ''192.168.1.6'', ip = ''192.168.1.6'', name = ''HDHomeRun 1075D4B1'', online = True \<rparr>]"
    by code_simp
  have m: "mergeDevices
     [\<lparr> id_dev = ''192.168.1.5'', ip = ''192.168.1.5'', name = ''HDHomeRun 1075D4B1'', online = True \<rparr>,
      \<lparr> id_dev = ''192.168.1.5'', ip = ''192.168.1.5'', name = ''HDHomeRun 10A0FFEE'', online = True \<rparr>,
      \<lparr> id_dev = ''192.168.1.6'', ip = ''192.168.1.6'', name = ''HDHomeRun 1075D4B1'', online = True \<rparr>] []
    = [\<lparr> id_dev = ''192.168.1.5'', ip = ''192.168.1.5'', name = ''HDHomeRun 1075D4B1'', online = True \<rparr>,
      \<lparr> id_dev = ''192.168.1.6'', ip = ''192.168.1.6'', name = ''HDHomeRun 1075D4B1'', online = True \<rparr>]"
    by code_simp
  have u: "udpDiscoverDevices cloud_dupes_env = []" "manualHosts cloud_dupes_env = []"
    "HDHOMERUN_DISABLE_DISCOVERY cloud_dupes_env \<noteq> Some ''true''"
    by (simp_all add: udpDiscoverDevices_def manualHosts_def cloud_dupes_env_def cloud_only_env_def falsy_def)
  from cloud_devices_by_ip [OF r, of True new_controller] u h m
  show ?thesis by simp
qed

section \<open>The status and the debug query\<close>

lemma no_estimate_addDebug:
  "no_estimate (addDebug debugResult (parseStatusLine line)) = parseStatusLine line"
  by (simp add: addDebug_def no_estimate_def parseStatusLine_def Let_def split: option.splits prod.splits)

lemma addDebug_unusable:
  "debugResult = None \<or> match_dbg (the debugResult) = None \<Longrightarrow> addDebug debugResult st = st"
  by (auto simp: addDebug_def falsy_def)

lemma getTunerStatus_answers:
  "getTunerStatus exec deviceId tuner
     = getTunerStatus (answers (exec deviceId tuner ''status'') (exec deviceId tuner ''debug'')) d' t'"
  by (simp add: getTunerStatus_def getStatusCommand_def answers_def)

lemma getTunerStatus_cases:
  "getTunerStatus exec deviceId tuner =
     (case exec deviceId tuner ''status'' of
        None \<Rightarrow> None
      | Some out \<Rightarrow>
          if trim out = [] then None
          else if trim (trim out) = ''none'' then Some idle_status
          else Some (addDebug (map_option trim (exec deviceId tuner ''debug''))
                       (parseStatusLine (trim (trim out)))))"
  by (simp add: getTunerStatus_def getStatusCommand_def falsy_def idle_status_def Let_def
        map_option_case split: option.splits)

text \<open>
  Claim C3, amended. The result depends on the answers to the status query and to the
  debug query only, each issued whatever the other answers. It is null when the status
  query fails or prints nothing but whitespace. When the status query prints anything
  else, the result is a status; it is, apart from \<open>ssDb\<close>, \<open>snrDb\<close> and \<open>debugRaw\<close>,
  the status that the same tuner gives with its debug query failing; and when the debug
  query fails or its output does not match \<open>dbg=<signal>-<snr>/<third>\<close>, those three
  fields are absent.
\<close>

theorem status_survives_debug_failure:
  "(exec deviceId tuner ''status'' = None
      \<or> (\<exists>out. exec deviceId tuner ''status'' = Some out \<and> trim out = []) \<longrightarrow>
      getTunerStatus exec deviceId tuner = None)
   \<and> (\<forall>out. exec deviceId tuner ''status'' = Some out \<and> trim out \<noteq> [] \<longrightarrow>
        (\<exists>st. getTunerStatus exec deviceId tuner = Some st)
        \<and> getTunerStatus (without_debug exec) deviceId tuner
            = map_option no_estimate (getTunerStatus exec deviceId tuner)
        \<and> (exec deviceId tuner ''debug'' = None
             \<or> (\<exists>dbg. exec deviceId tuner ''debug'' = Some dbg \<and> match_dbg (trim dbg) = None) \<longrightarrow>
             getTunerStatus exec deviceId tuner = getTunerStatus (without_debug exec) deviceId tuner
             \<and> (\<forall>st. getTunerStatus exec deviceId tuner = Some st \<longrightarrow>
                    ssDb st = None \<and> snrDb st = None \<and> debugRaw st = None)))
   \<and> getTunerStatus exec deviceId tuner
       = getTunerStatus (answers (exec deviceId tuner ''status'') (exec deviceId tuner ''debug''))
           deviceId tuner"
proof -
  have wd: "without_debug exec deviceId tuner ''status'' = exec deviceId tuner ''status''"
    "without_debug exec deviceId tuner ''debug'' = None"
    by (simp_all add: without_debug_def)
  have a: "exec deviceId tuner ''status'' = None
      \<or> (\<exists>out. exec deviceId tuner ''status'' = Some out \<and> trim out = []) \<longrightarrow>
      getTunerStatus exec deviceId tuner = None"
    by (auto simp: getTunerStatus_cases)
  have b: "\<exists>st. getTunerStatus exec deviceId tuner = Some st"
    if "exec deviceId tuner ''status'' = Some out" "trim out \<noteq> []" for out
    using that by (simp add: getTunerStatus_cases)
  have ne_idle: "no_estimate idle_status = idle_status"
    by (simp add: no_estimate_def idle_status_def)
  have c: "getTunerStatus (without_debug exec) deviceId tuner
            = map_option no_estimate (getTunerStatus exec deviceId tuner)"
    by (simp add: getTunerStatus_cases [of "without_debug exec"] getTunerStatus_cases [of exec] wd
          no_estimate_addDebug addDebug_unusable ne_idle split: option.splits)
  have d: "getTunerStatus exec deviceId tuner = getTunerStatus (without_debug exec) deviceId tuner"
    if "exec deviceId tuner ''debug'' = None
             \<or> (\<exists>dbg. exec deviceId tuner ''debug'' = Some dbg \<and> match_dbg (trim dbg) = None)"
  proof -
    have "addDebug (map_option trim (exec deviceId tuner ''debug'')) st = st" for st
      using that by (intro addDebug_unusable) auto
    then show ?thesis
      by (simp add: getTunerStatus_cases [of "without_debug exec"] getTunerStatus_cases [of exec] wd
            addDebug_unusable split: option.splits)
  qed
  have e: "ssDb st = None \<and> snrDb st = None \<and> debugRaw st = None"
    if "getTunerStatus (without_debug exec) deviceId tuner = Some st" for st
  proof -
    from that c obtain st' where "st = no_estimate st'" by (cases "getTunerStatus exec deviceId tuner") auto
    then show ?thesis by (simp add: no_estimate_def)
  qed
  have f: "getTunerStatus exec deviceId tuner
       = getTunerStatus (answers (exec deviceId tuner ''status'') (exec deviceId tuner ''debug''))
           deviceId tuner"
    by (rule getTunerStatus_answers)
  show ?thesis
    using a b c d e f by (intro conjI allI impI) (auto simp del: not_None_eq)
qed

text \<open>
  Claim C3 as stated fails: the status query succeeds, printing an empty line, the debug
  query fails, and the result is null instead of a valid status.
\<close>

theorem status_claim_counterexample:
  "blank_tuner ''10.0.0.5'' 0 ''status'' \<noteq> None
   \<and> blank_tuner ''10.0.0.5'' 0 ''debug'' = None
   \<and> getTunerStatus blank_tuner ''10.0.0.5'' 0 = None"
  by (simp add: getTunerStatus_cases blank_tuner_def answers_def trim_def is_space_def)

theorem status_survives_debug_failure_witness:
  "garbled_debug_tuner ''10.0.0.5'' 0 ''status'' = Some ''ch=8 lock=8vsb ss=71''
   \<and> trim ''ch=8 lock=8vsb ss=71'' \<noteq> []
   \<and> garbled_debug_tuner ''10.0.0.5'' 0 ''debug'' = Some ''dbg=86/19''
   \<and> match_dbg (trim ''dbg=86/19'') = None
   \<and> (\<exists>st. getTunerStatus garbled_debug_tuner ''10.0.0.5'' 0 = Some st
            \<and> ssDb st = None \<and> snrDb st = None \<and> debugRaw st = None)"
proof -
  have a: "garbled_debug_tuner ''10.0.0.5'' 0 ''status'' = Some ''ch=8 lock=8vsb ss=71''"
    and b: "garbled_debug_tuner ''10.0.0.5'' 0 ''debug'' = Some ''dbg=86/19''"
    by (simp_all add: garbled_debug_tuner_def answers_def)
  have c: "trim ''ch=8 lock=8vsb ss=71'' \<noteq> []"
    by (simp add: trim_def is_space_def)
  have d: "match_dbg (trim ''dbg=86/19'') = None"
    by code_simp
  from status_survives_debug_failure [of garbled_debug_tuner "''10.0.0.5''" 0]
  have "\<forall>out. garbled_debug_tuner ''10.0.0.5'' 0 ''status'' = Some out \<and> trim out \<noteq> [] \<longrightarrow>
        (\<exists>st. getTunerStatus garbled_debug_tuner ''10.0.0.5'' 0 = Some st)
        \<and> (garbled_debug_tuner ''10.0.0.5'' 0 ''debug'' = None
             \<or> (\<exists>dbg. garbled_debug_tuner ''10.0.0.5'' 0 ''debug'' = Some dbg \<and> match_dbg (trim dbg) = None) \<longrightarrow>
             (\<forall>st. getTunerStatus garbled_debug_tuner ''10.0.0.5'' 0 = Some st \<longrightarrow>
                    ssDb st = None \<and> snrDb st = None \<and> debugRaw st = None))"
    by blast
  then have "(\<exists>st. getTunerStatus garbled_debug_tuner ''10.0.0.5'' 0 = Some st)
        \<and> (\<forall>st. getTunerStatus garbled_debug_tuner ''10.0.0.5'' 0 = Some st \<longrightarrow>
                    ssDb st = None \<and> snrDb st = None \<and> debugRaw st = None)"
    using a b c d by blast
  then show ?thesis using a b c d by blast
qed

section \<open>The fields of a status line\<close>

lemma dropWhile_last:
  "xs \<noteq> [] \<Longrightarrow> \<not> P (last xs) \<Longrightarrow> dropWhile P xs \<noteq> [] \<and> last (dropWhile P xs) = last xs"
  by (induction xs) auto

lemma trim_idem: "trim (trim s) = trim s"
proof -
  define t where "t = dropWhile is_space s"
  define u where "u = rev (dropWhile is_space (rev t))"
  have ut: "trim s = u" by (simp add: trim_def t_def u_def)
  have lead: "dropWhile is_space u = u"
  proof (cases "t = []")
    case True
    then show ?thesis by (simp add: u_def)
  next
    case False
    then have h: "\<not> is_space (hd t)" unfolding t_def by (rule hd_dropWhile)
    have "rev t \<noteq> []" "last (rev t) = hd t" using False by (simp_all add: last_rev)
    then have "dropWhile is_space (rev t) \<noteq> [] \<and> last (dropWhile is_space (rev t)) = hd t"
      using dropWhile_last [of "rev t" is_space] h by simp
    then have "u \<noteq> []" "hd u = hd t" by (simp_all add: u_def hd_rev)
    then show ?thesis using h by (simp add: dropWhile_eq_self_iff)
  qed
  have trail: "dropWhile is_space (rev u) = rev u" by (simp add: u_def dropWhile_idem)
  show ?thesis unfolding ut by (simp add: trim_def lead trail)
qed

lemma head_occurrence:
  "(take (length key) s = key \<and> takeWhile C (drop (length key) s) \<noteq> [])
     \<longleftrightarrow> (\<exists>c post. s = key @ c # post \<and> C c)"
proof
  assume h: "take (length key) s = key \<and> takeWhile C (drop (length key) s) \<noteq> []"
  then obtain c post where d: "drop (length key) s = c # post"
    by (cases "drop (length key) s") auto
  with h have "C c" by (auto split: if_splits)
  moreover have "s = key @ c # post"
    using h d append_take_drop_id [of "length key" s] by simp
  ultimately show "\<exists>c post. s = key @ c # post \<and> C c" by blast
next
  assume "\<exists>c post. s = key @ c # post \<and> C c"
  then show "take (length key) s = key \<and> takeWhile C (drop (length key) s) \<noteq> []" by auto
qed

lemma occurs_Cons:
  "occurs key C (x # xs) \<longleftrightarrow> (\<exists>c post. x # xs = key @ c # post \<and> C c) \<or> occurs key C xs"
proof
  assume "occurs key C (x # xs)"
  then obtain pre c post where o: "x # xs = pre @ key @ c # post" "C c"
    unfolding occurs_def by blast
  show "(\<exists>c post. x # xs = key @ c # post \<and> C c) \<or> occurs key C xs"
  proof (cases pre)
    case Nil
    then show ?thesis using o by auto
  next
    case (Cons p pre')
    then have "xs = pre' @ key @ c # post" using o(1) by simp
    then show ?thesis using o(2) unfolding occurs_def by blast
  qed
next
  assume "(\<exists>c post. x # xs = key @ c # post \<and> C c) \<or> occurs key C xs"
  then show "occurs key C (x # xs)"
  proof
    assume "\<exists>c post. x # xs = key @ c # post \<and> C c"
    then obtain c post where "x # xs = [] @ key @ c # post" "C c" by auto
    then show ?thesis unfolding occurs_def by blast
  next
    assume "occurs key C xs"
    then obtain pre c post where "xs = pre @ key @ c # post" "C c" unfolding occurs_def by blast
    then have "x # xs = (x # pre) @ key @ c # post" "C c" by simp_all
    then show ?thesis unfolding occurs_def by blast
  qed
qed

lemma match_key_hit:
  assumes "take (length key) (x # xs) = key \<and> takeWhile C (drop (length key) (x # xs)) \<noteq> []"
  shows "match_key key C (x # xs) = Some (takeWhile C (drop (length key) (x # xs)))"
  by (subst match_key.simps, rule if_P, rule assms)

lemma match_key_miss:
  assumes "\<not> (take (length key) (x # xs) = key \<and> takeWhile C (drop (length key) (x # xs)) \<noteq> [])"
  shows "match_key key C (x # xs) = match_key key C xs"
  by (subst match_key.simps, rule if_not_P, rule assms)

lemma match_key_None_iff: "match_key key C s = None \<longleftrightarrow> \<not> occurs key C s"
proof (induction s)
  case Nil
  show ?case by (simp add: occurs_def)
next
  case (Cons x xs)
  show ?case
  proof (cases "take (length key) (x # xs) = key \<and> takeWhile C (drop (length key) (x # xs)) \<noteq> []")
    case True
    then have "match_key key C (x # xs) \<noteq> None"
      using match_key_hit [of key x xs C] by simp
    moreover have "occurs key C (x # xs)"
      using True head_occurrence [of key "x # xs" C] occurs_Cons [of key C x xs] by blast
    ultimately show ?thesis by simp
  next
    case False
    then have "match_key key C (x # xs) = match_key key C xs"
      by (rule match_key_miss)
    moreover have "occurs key C (x # xs) \<longleftrightarrow> occurs key C xs"
      using False head_occurrence [of key "x # xs" C] occurs_Cons [of key C x xs] by blast
    ultimately show ?thesis using Cons.IH by simp
  qed
qed


lemma takeWhile_run:
  "list_all C v \<Longrightarrow> post = [] \<or> \<not> C (hd post) \<Longrightarrow> takeWhile C (v @ post) = v"
  by (cases post) (auto simp: list_all_iff takeWhile_append2 intro: takeWhile_eq_all_conv [THEN iffD2])

lemma leftmost_value_head:
  assumes h: "take (length key) s = key \<and> takeWhile C (drop (length key) s) \<noteq> []"
  shows "leftmost_value key C s v \<longleftrightarrow> v = takeWhile C (drop (length key) s)"
proof
  assume "leftmost_value key C s v"
  then obtain pre post where p: "s = pre @ key @ v @ post" "v \<noteq> []" "list_all C v"
    "post = [] \<or> \<not> C (hd post)"
    "\<forall>pre' c post'. s = pre' @ key @ c # post' \<and> C c \<longrightarrow> length pre \<le> length pre'"
    unfolding leftmost_value_def by blast
  from h obtain c post' where "s = key @ c # post'" "C c"
    using head_occurrence [of key s C] by blast
  then have "s = [] @ key @ c # post' \<and> C c" by simp
  then have "length pre \<le> length ([] :: string)" using p(5) by blast
  then have "pre = []" by simp
  then have "drop (length key) s = v @ post" using p(1) by simp
  then show "v = takeWhile C (drop (length key) s)"
    using takeWhile_run [OF p(3) p(4)] by simp
next
  assume v: "v = takeWhile C (drop (length key) s)"
  define post where "post = dropWhile C (drop (length key) s)"
  have "s = take (length key) s @ drop (length key) s" by simp
  then have s: "s = [] @ key @ v @ post"
    using h v by (simp add: post_def)
  have "v \<noteq> []" using h v by simp
  moreover have "list_all C v" unfolding v list_all_iff by (auto dest: set_takeWhileD)
  moreover have "post = [] \<or> \<not> C (hd post)" unfolding post_def using hd_dropWhile by blast
  moreover have "\<forall>pre' c post'. s = pre' @ key @ c # post' \<and> C c \<longrightarrow> length ([] :: string) \<le> length pre'"
    by simp
  ultimately show "leftmost_value key C s v"
    unfolding leftmost_value_def using s by blast
qed

lemma leftmost_value_tail:
  assumes h: "\<not> (take (length key) (x # xs) = key \<and> takeWhile C (drop (length key) (x # xs)) \<noteq> [])"
  shows "leftmost_value key C (x # xs) v \<longleftrightarrow> leftmost_value key C xs v"
proof
  have no_head: "\<not> (\<exists>c post. x # xs = key @ c # post \<and> C c)"
    using h head_occurrence [of key "x # xs" C] by blast
  assume "leftmost_value key C (x # xs) v"
  then obtain pre post where p: "x # xs = pre @ key @ v @ post" "v \<noteq> []" "list_all C v"
    "post = [] \<or> \<not> C (hd post)"
    "\<forall>pre' c post'. x # xs = pre' @ key @ c # post' \<and> C c \<longrightarrow> length pre \<le> length pre'"
    unfolding leftmost_value_def by blast
  obtain c v' where v: "v = c # v'" "C c" using p(2,3) by (cases v) auto
  have "pre \<noteq> []"
  proof
    assume "pre = []"
    then have "x # xs = key @ c # (v' @ post)" using p(1) v(1) by simp
    then show False using no_head v(2) by blast
  qed
  then obtain pre2 where pre: "pre = x # pre2" using p(1) by (cases pre) auto
  then have xs: "xs = pre2 @ key @ v @ post" using p(1) by simp
  have "length pre2 \<le> length pre'" if "xs = pre' @ key @ c' # post'" "C c'" for pre' c' post'
  proof -
    from that have "x # xs = (x # pre') @ key @ c' # post' \<and> C c'" by simp
    then have "length pre \<le> length (x # pre')" using p(5) by blast
    then show ?thesis using pre by simp
  qed
  then show "leftmost_value key C xs v"
    unfolding leftmost_value_def using xs p(2,3,4) by blast
next
  have no_head: "\<not> (\<exists>c post. x # xs = key @ c # post \<and> C c)"
    using h head_occurrence [of key "x # xs" C] by blast
  assume "leftmost_value key C xs v"
  then obtain pre2 post where p: "xs = pre2 @ key @ v @ post" "v \<noteq> []" "list_all C v"
    "post = [] \<or> \<not> C (hd post)"
    "\<forall>pre' c post'. xs = pre' @ key @ c # post' \<and> C c \<longrightarrow> length pre2 \<le> length pre'"
    unfolding leftmost_value_def by blast
  have s: "x # xs = (x # pre2) @ key @ v @ post" using p(1) by simp
  have "length (x # pre2) \<le> length pre'" if "x # xs = pre' @ key @ c' # post'" "C c'" for pre' c' post'
  proof (cases pre')
    case Nil
    then show ?thesis using that no_head by auto
  next
    case (Cons y pre'')
    then have "xs = pre'' @ key @ c' # post'" using that(1) by simp
    then have "length pre2 \<le> length pre''" using p(5) that(2) by blast
    then show ?thesis using Cons by simp
  qed
  then show "leftmost_value key C (x # xs) v"
    unfolding leftmost_value_def using s p(2,3,4) by blast
qed

lemma match_key_Some_iff: "match_key key C s = Some v \<longleftrightarrow> leftmost_value key C s v"
proof (induction s)
  case Nil
  show ?case by (simp add: leftmost_value_def)
next
  case (Cons x xs)
  show ?case
  proof (cases "take (length key) (x # xs) = key \<and> takeWhile C (drop (length key) (x # xs)) \<noteq> []")
    case True
    show ?thesis
      unfolding match_key_hit [OF True] leftmost_value_head [OF True] by auto
  next
    case False
    show ?thesis
      unfolding match_key_miss [OF False] leftmost_value_tail [OF False] by (rule Cons.IH)
  qed
qed

lemma numeric_field_match:
  "numeric_field (map_option parseInt (match_key key is_digit line)) key line"
proof (cases "match_key key is_digit line")
  case None
  then have "\<not> occurs key is_digit line" "\<And>v. \<not> leftmost_value key is_digit line v"
    using match_key_None_iff [of key is_digit line] match_key_Some_iff [of key is_digit line]
    by simp_all
  then show ?thesis using None by (simp add: numeric_field_def)
next
  case (Some a)
  then have o: "occurs key is_digit line"
    using match_key_None_iff [of key is_digit line] by simp
  have l: "leftmost_value key is_digit line v \<longleftrightarrow> v = a" for v
    using match_key_Some_iff [of key is_digit line v] Some by auto
  show ?thesis
    unfolding numeric_field_def Some l using o by auto
qed

lemma addDebug_fields:
  "channel (addDebug d st) = channel st" "lock (addDebug d st) = lock st"
  "ss (addDebug d st) = ss st" "snq (addDebug d st) = snq st" "seq (addDebug d st) = seq st"
  "bps (addDebug d st) = bps st" "pps (addDebug d st) = pps st"
  by (simp_all add: addDebug_def Let_def split: option.splits prod.splits)

lemma trim_none: "trim ''none'' = ''none''"
  by (simp add: trim_def is_space_def)

text \<open>
  Claim C2, amended. For a status output that is not empty after trimming: the line
  \<open>none\<close> gives exactly the channel \<open>none\<close> and \<open>lock\<close> false, no other field.
  Any other line gives a status in which the channel is present exactly when \<open>ch=\<close>
  occurs in the line followed by a character that is not whitespace, anywhere and also
  inside a longer token, and is then the run of such characters after the leftmost such
  place; each of \<open>ss\<close>, \<open>snq\<close>, \<open>seq\<close>, \<open>bps\<close>, \<open>pps\<close> is present exactly when its
  key and \<open>=\<close> occur followed by a digit, and is then the base-ten reading of the
  digits after the leftmost such place; a key with no such place is absent, not zero;
  and \<open>lock\<close> is true exactly when \<open>lock=\<close> occurs followed by a character that is not
  whitespace.
\<close>

theorem status_line_fields:
  assumes "exec deviceId tuner ''status'' = Some out" and "trim out \<noteq> []"
  shows "(trim out = ''none'' \<longrightarrow> getTunerStatus exec deviceId tuner = Some idle_status)
   \<and> (trim out \<noteq> ''none'' \<longrightarrow>
        (\<exists>st. getTunerStatus exec deviceId tuner = Some st
          \<and> (\<forall>v. channel st = Some v \<longleftrightarrow> leftmost_value ''ch='' non_space (trim out) v)
          \<and> (channel st = None \<longleftrightarrow> \<not> occurs ''ch='' non_space (trim out))
          \<and> (lock st \<longleftrightarrow> occurs ''lock='' non_space (trim out))
          \<and> numeric_field (ss st) ''ss='' (trim out)
          \<and> numeric_field (snq st) ''snq='' (trim out)
          \<and> numeric_field (seq st) ''seq='' (trim out)
          \<and> numeric_field (bps st) ''bps='' (trim out)
          \<and> numeric_field (pps st) ''pps='' (trim out)))"
proof -
  have idle: "trim out = ''none'' \<longrightarrow> getTunerStatus exec deviceId tuner = Some idle_status"
  proof
    assume "trim out = ''none''"
    then show "getTunerStatus exec deviceId tuner = Some idle_status"
      using assms by (simp add: getTunerStatus_cases trim_none)
  qed
  have busy: "\<exists>st. getTunerStatus exec deviceId tuner = Some st
          \<and> (\<forall>v. channel st = Some v \<longleftrightarrow> leftmost_value ''ch='' non_space (trim out) v)
          \<and> (channel st = None \<longleftrightarrow> \<not> occurs ''ch='' non_space (trim out))
          \<and> (lock st \<longleftrightarrow> occurs ''lock='' non_space (trim out))
          \<and> numeric_field (ss st) ''ss='' (trim out)
          \<and> numeric_field (snq st) ''snq='' (trim out)
          \<and> numeric_field (seq st) ''seq='' (trim out)
          \<and> numeric_field (bps st) ''bps='' (trim out)
          \<and> numeric_field (pps st) ''pps='' (trim out)"
    if n: "trim out \<noteq> ''none''"
  proof -
    define st where "st = addDebug (map_option trim (exec deviceId tuner ''debug''))
                            (parseStatusLine (trim out))"
    have g: "getTunerStatus exec deviceId tuner = Some st"
      using assms n by (simp add: getTunerStatus_cases trim_idem st_def)
    have c: "channel st = match_key ''ch='' non_space (trim out)"
      and l: "lock st = (match_key ''lock='' non_space (trim out) \<noteq> None)"
      and f: "ss st = map_option parseInt (match_key ''ss='' is_digit (trim out))"
        "snq st = map_option parseInt (match_key ''snq='' is_digit (trim out))"
        "seq st = map_option parseInt (match_key ''seq='' is_digit (trim out))"
        "bps st = map_option parseInt (match_key ''bps='' is_digit (trim out))"
        "pps st = map_option parseInt (match_key ''pps='' is_digit (trim out))"
      unfolding st_def addDebug_fields by (simp_all add: parseStatusLine_def)
    have c1: "\<forall>v. channel st = Some v \<longleftrightarrow> leftmost_value ''ch='' non_space (trim out) v"
      unfolding c by (simp add: match_key_Some_iff)
    have c2: "channel st = None \<longleftrightarrow> \<not> occurs ''ch='' non_space (trim out)"
      unfolding c by (rule match_key_None_iff)
    have l1: "lock st \<longleftrightarrow> occurs ''lock='' non_space (trim out)"
      unfolding l by (simp add: match_key_None_iff)
    have n1: "numeric_field (ss st) ''ss='' (trim out)" "numeric_field (snq st) ''snq='' (trim out)"
      "numeric_field (seq st) ''seq='' (trim out)" "numeric_field (bps st) ''bps='' (trim out)"
      "numeric_field (pps st) ''pps='' (trim out)"
      unfolding f by (rule numeric_field_match)+
    show ?thesis
      by (rule exI [of _ st]) (intro conjI g c1 c2 l1 n1)
  qed
  show ?thesis
  proof (intro conjI impI)
    assume "trim out = ''none''"
    then show "getTunerStatus exec deviceId tuner = Some idle_status" using idle by (rule rev_mp)
  next
    assume "trim out \<noteq> ''none''"
    then show "\<exists>st. getTunerStatus exec deviceId tuner = Some st
          \<and> (\<forall>v. channel st = Some v \<longleftrightarrow> leftmost_value ''ch='' non_space (trim out) v)
          \<and> (channel st = None \<longleftrightarrow> \<not> occurs ''ch='' non_space (trim out))
          \<and> (lock st \<longleftrightarrow> occurs ''lock='' non_space (trim out))
          \<and> numeric_field (ss st) ''ss='' (trim out)
          \<and> numeric_field (snq st) ''snq='' (trim out)
          \<and> numeric_field (seq st) ''seq='' (trim out)
          \<and> numeric_field (bps st) ''bps='' (trim out)
          \<and> numeric_field (pps st) ''pps='' (trim out)"
      by (rule busy)
  qed
qed

text \<open>
  Claim C2 as stated fails, reading a line as whitespace-separated tokens. A line with
  the token \<open>lock=\<close> and a token of the key \<open>ss\<close> gives \<open>lock\<close> false and no \<open>ss\<close>;
  a line with no token of the key \<open>ch\<close> or \<open>ss\<close> gives a channel and an \<open>ss\<close>.
\<close>

theorem status_line_claim_counterexample:
  "token_present ''lock'' ''ch=8 lock= ss=n/a''
   \<and> token_present ''ss'' ''ch=8 lock= ss=n/a''
   \<and> getTunerStatus odd_status_tuner ''10.0.0.5'' 0
       = Some \<lparr> channel = Some ''8'', lock = False, ss = None, snq = None, seq = None,
                bps = None, pps = None, ssDb = None, snrDb = None, debugRaw = None \<rparr>
   \<and> \<not> token_present ''ch'' ''xch=8 mss=71''
   \<and> \<not> token_present ''ss'' ''xch=8 mss=71''
   \<and> getTunerStatus glued_status_tuner ''10.0.0.5'' 0
       = Some \<lparr> channel = Some ''8'', lock = False, ss = Some 71, snq = None, seq = None,
                bps = None, pps = None, ssDb = None, snrDb = None, debugRaw = None \<rparr>"
proof -
  have a: "token_present ''lock'' ''ch=8 lock= ss=n/a''"
    by code_simp
  have b: "token_present ''ss'' ''ch=8 lock= ss=n/a''"
    by code_simp
  have c: "getTunerStatus odd_status_tuner ''10.0.0.5'' 0
       = Some \<lparr> channel = Some ''8'', lock = False, ss = None, snq = None, seq = None,
                bps = None, pps = None, ssDb = None, snrDb = None, debugRaw = None \<rparr>"
    by (simp add: getTunerStatus_cases odd_status_tuner_def answers_def trim_def is_space_def
          addDebug_def falsy_def parseStatusLine_def non_space_def is_digit_def)
  have d: "\<not> token_present ''ch'' ''xch=8 mss=71''"
    by code_simp
  have e: "\<not> token_present ''ss'' ''xch=8 mss=71''"
    by code_simp
  have f: "getTunerStatus glued_status_tuner ''10.0.0.5'' 0
       = Some \<lparr> channel = Some ''8'', lock = False, ss = Some 71, snq = None, seq = None,
                bps = None, pps = None, ssDb = None, snrDb = None, debugRaw = None \<rparr>"
    by (simp add: getTunerStatus_cases glued_status_tuner_def answers_def trim_def is_space_def
          addDebug_def falsy_def parseStatusLine_def non_space_def is_digit_def parseInt_def
          digit_val_def)
  show ?thesis by (rule conjI a b c d e f)+
qed

theorem status_line_fields_witness:
  "locked_tuner ''10.0.0.5'' 0 ''status'' = Some ''ch=8 lock=8vsb ss=71''
   \<and> trim ''ch=8 lock=8vsb ss=71'' = ''ch=8 lock=8vsb ss=71''
   \<and> getTunerStatus locked_tuner ''10.0.0.5'' 0
       = Some \<lparr> channel = Some ''8'', lock = True, ss = Some 71, snq = None, seq = None,
                bps = None, pps = None, ssDb = None, snrDb = None, debugRaw = None \<rparr>
   \<and> leftmost_value ''ch='' non_space ''ch=8 lock=8vsb ss=71'' ''8''
   \<and> occurs ''lock='' non_space ''ch=8 lock=8vsb ss=71''
   \<and> \<not> occurs ''snq='' is_digit ''ch=8 lock=8vsb ss=71''
   \<and> getTunerStatus idle_tuner ''10.0.0.5'' 0 = Some idle_status"
proof -
  have a: "locked_tuner ''10.0.0.5'' 0 ''status'' = Some ''ch=8 lock=8vsb ss=71''"
    by (simp add: locked_tuner_def answers_def)
  have t: "trim ''ch=8 lock=8vsb ss=71'' = ''ch=8 lock=8vsb ss=71''"
    by (simp add: trim_def is_space_def)
  have g: "getTunerStatus locked_tuner ''10.0.0.5'' 0
       = Some \<lparr> channel = Some ''8'', lock = True, ss = Some 71, snq = None, seq = None,
                bps = None, pps = None, ssDb = None, snrDb = None, debugRaw = None \<rparr>"
    by (simp add: getTunerStatus_cases locked_tuner_def answers_def trim_def is_space_def
          addDebug_def falsy_def parseStatusLine_def non_space_def is_digit_def parseInt_def
          digit_val_def)
  have i: "idle_tuner ''10.0.0.5'' 0 ''status'' = Some ''none''" "trim ''none'' = ''none''"
    by (simp_all add: idle_tuner_def answers_def trim_def is_space_def)
  from status_line_fields [of locked_tuner "''10.0.0.5''" 0 "''ch=8 lock=8vsb ss=71''"] a t
  obtain st where st: "getTunerStatus locked_tuner ''10.0.0.5'' 0 = Some st"
    "\<forall>v. channel st = Some v \<longleftrightarrow> leftmost_value ''ch='' non_space ''ch=8 lock=8vsb ss=71'' v"
    "lock st \<longleftrightarrow> occurs ''lock='' non_space ''ch=8 lock=8vsb ss=71''"
    "numeric_field (snq st) ''snq='' ''ch=8 lock=8vsb ss=71''"
    by auto
  have v: "channel st = Some ''8''" "lock st" "snq st = None"
    using st(1) g by auto
  have "leftmost_value ''ch='' non_space ''ch=8 lock=8vsb ss=71'' ''8''"
    using st(2) v(1) by blast
  moreover have "occurs ''lock='' non_space ''ch=8 lock=8vsb ss=71''"
    using st(3) v(2) by blast
  moreover have "\<not> occurs ''snq='' is_digit ''ch=8 lock=8vsb ss=71''"
    using st(4) v(3) unfolding numeric_field_def by blast
  moreover from status_line_fields [of idle_tuner "''10.0.0.5''" 0 "''none''"] i
  have "getTunerStatus idle_tuner ''10.0.0.5'' 0 = Some idle_status" by simp
  ultimately show ?thesis using a t g by simp
qed

section \<open>The signal estimate in the status\<close>

lemma match_dbg_nonempty: "match_dbg r = Some m \<Longrightarrow> r \<noteq> []"
  by (cases r) auto

lemma addDebug_match:
  assumes "match_dbg r = Some (g1, g2, g3)"
  shows "addDebug (Some r) st =
           st \<lparr> ssDb := Some (fst (estimate (parseInt g1) (parseInt g2))),
                snrDb := Some (snd (estimate (parseInt g1) (parseInt g2))),
                debugRaw := Some (string_of_nat (parseInt g1) @ ''-'' @ string_of_nat (parseInt g2)
                                   @ ''/'' @ g3) \<rparr>"
  using assms match_dbg_nonempty [OF assms] by (simp add: addDebug_def falsy_def Let_def)

lemma getTunerStatus_estimated:
  assumes "exec deviceId tuner ''status'' = Some out" "trim out \<noteq> []" "trim out \<noteq> ''none''"
    and "exec deviceId tuner ''debug'' = Some dbg" "match_dbg (trim dbg) = Some (g1, g2, g3)"
  shows "getTunerStatus exec deviceId tuner =
           Some ((parseStatusLine (trim out))
                   \<lparr> ssDb := Some (fst (estimate (parseInt g1) (parseInt g2))),
                     snrDb := Some (snd (estimate (parseInt g1) (parseInt g2))),
                     debugRaw := Some (string_of_nat (parseInt g1) @ ''-''
                                        @ string_of_nat (parseInt g2) @ ''/'' @ g3) \<rparr>)"
  using assms(1-4) by (simp add: getTunerStatus_cases trim_idem addDebug_match [OF assms(5)])


text \<open>
  Claim C7. When the status line is not \<open>none\<close> and the debug output matches the
  pattern, \<open>getTunerStatus\<close> attaches to the status the estimates computed from the
  two raw counters of the debug output, and leaves the other fields as parsed. The
  estimate of the signal is the function of four buckets, with the boundaries at 80, 60
  and 20, that the claim names; the estimate of the signal-to-noise ratio is the raw
  counter times 0.31, and exactly 0 when the counter is 0; both are a whole number of
  tenths, the second within one twentieth of the product; a raw signal counter of 86
  gives a signal between -50 and -40, and a raw noise counter of 0 gives a
  signal-to-noise ratio of exactly 0. The same holds of the estimator taken alone.
\<close>

theorem estimate_buckets:
  "(\<forall>out dbg g1 g2 g3.
      exec deviceId tuner ''status'' = Some out \<and> trim out \<noteq> [] \<and> trim out \<noteq> ''none''
      \<and> exec deviceId tuner ''debug'' = Some dbg \<and> match_dbg (trim dbg) = Some (g1, g2, g3) \<longrightarrow>
      (\<exists>st. getTunerStatus exec deviceId tuner = Some st
         \<and> ssDb st = Some (if parseInt g1 \<ge> 80 then - 40 - (100 - of_nat (parseInt g1)) / 2
                           else if parseInt g1 \<ge> 60 then - 50 - (80 - of_nat (parseInt g1)) / 2
                           else if parseInt g1 \<ge> 20 then - 60 - (60 - of_nat (parseInt g1)) / 2
                           else - 80 - (20 - of_nat (parseInt g1)) / 2)
         \<and> snrDb st = Some (if parseInt g2 = 0 then 0
                            else of_int (Math_round (of_nat (parseInt g2) * (31 / 100) * 10)) / 10)
         \<and> debugRaw st = Some (string_of_nat (parseInt g1) @ ''-'' @ string_of_nat (parseInt g2)
                                @ ''/'' @ g3)
         \<and> (\<exists>k::int. ssDb st = Some (of_int k / 10))
         \<and> (\<exists>k::int. snrDb st = Some (of_int k / 10))
         \<and> (\<forall>x. snrDb st = Some x \<longrightarrow> \<bar>x - of_nat (parseInt g2) * (31 / 100)\<bar> \<le> 1 / 20)
         \<and> (parseInt g1 = 86 \<longrightarrow> (\<exists>x. ssDb st = Some x \<and> - 50 \<le> x \<and> x \<le> - 40))
         \<and> (parseInt g2 = 0 \<longrightarrow> snrDb st = Some 0)
         \<and> no_estimate st = parseStatusLine (trim out)))
   \<and> fst (estimate signalRaw snrRaw) =
     (if signalRaw \<ge> 80 then - 40 - (100 - of_nat signalRaw) / 2
      else if signalRaw \<ge> 60 then - 50 - (80 - of_nat signalRaw) / 2
      else if signalRaw \<ge> 20 then - 60 - (60 - of_nat signalRaw) / 2
      else - 80 - (20 - of_nat signalRaw) / 2)
   \<and> snd (estimate signalRaw snrRaw) =
       (if snrRaw = 0 then 0 else of_int (Math_round (of_nat snrRaw * (31 / 100) * 10)) / 10)
   \<and> (\<exists>k::int. fst (estimate signalRaw snrRaw) = of_int k / 10)
   \<and> (\<exists>k::int. snd (estimate signalRaw snrRaw) = of_int k / 10)
   \<and> \<bar>snd (estimate signalRaw snrRaw) - of_nat snrRaw * (31 / 100)\<bar> \<le> 1 / 20
   \<and> - 50 \<le> fst (estimate 86 19) \<and> fst (estimate 86 19) \<le> - 40
   \<and> snd (estimate 0 0) = 0"
proof -
  have a: "fst (estimate s n) =
     (if s \<ge> 80 then - 40 - (100 - of_nat s) / 2
      else if s \<ge> 60 then - 50 - (80 - of_nat s) / 2
      else if s \<ge> 20 then - 60 - (60 - of_nat s) / 2
      else - 80 - (20 - of_nat s) / 2)" for s n
    unfolding estimate_ssDb estimatedSignalDbm_def by simp
  have b: "snd (estimate s n) =
       (if n = 0 then 0 else of_int (Math_round (of_nat n * (31 / 100) * 10)) / 10)" for s n
    by (simp add: estimate_def estimatedSnrDb_def)
  have c: "\<exists>k::int. fst (estimate s n) = of_int k / 10" for s n
  proof
    show "fst (estimate s n) = of_int (5 * int s - 900) / 10"
      unfolding estimate_def estimatedSignalDbm_tenths Math_round_of_int by simp
  qed
  have d: "\<exists>k::int. snd (estimate s n) = of_int k / 10"
    and e: "\<bar>snd (estimate s n) - of_nat n * (31 / 100)\<bar> \<le> 1 / 20" for s n
    using estimate_snrDb [of s n] unfolding estimatedSnrDb_def by blast+
  have f: "fst (estimate 86 n) = - 47" for n
    unfolding estimate_ssDb estimatedSignalDbm_linear by simp
  have g: "snd (estimate s 0) = 0" for s
    by (simp add: estimate_def)
  have link: "\<exists>st. getTunerStatus exec deviceId tuner = Some st
         \<and> ssDb st = Some (if parseInt g1 \<ge> 80 then - 40 - (100 - of_nat (parseInt g1)) / 2
                           else if parseInt g1 \<ge> 60 then - 50 - (80 - of_nat (parseInt g1)) / 2
                           else if parseInt g1 \<ge> 20 then - 60 - (60 - of_nat (parseInt g1)) / 2
                           else - 80 - (20 - of_nat (parseInt g1)) / 2)
         \<and> snrDb st = Some (if parseInt g2 = 0 then 0
                            else of_int (Math_round (of_nat (parseInt g2) * (31 / 100) * 10)) / 10)
         \<and> debugRaw st = Some (string_of_nat (parseInt g1) @ ''-'' @ string_of_nat (parseInt g2)
                                @ ''/'' @ g3)
         \<and> (\<exists>k::int. ssDb st = Some (of_int k / 10))
         \<and> (\<exists>k::int. snrDb st = Some (of_int k / 10))
         \<and> (\<forall>x. snrDb st = Some x \<longrightarrow> \<bar>x - of_nat (parseInt g2) * (31 / 100)\<bar> \<le> 1 / 20)
         \<and> (parseInt g1 = 86 \<longrightarrow> (\<exists>x. ssDb st = Some x \<and> - 50 \<le> x \<and> x \<le> - 40))
         \<and> (parseInt g2 = 0 \<longrightarrow> snrDb st = Some 0)
         \<and> no_estimate st = parseStatusLine (trim out)"
    if h: "exec deviceId tuner ''status'' = Some out \<and> trim out \<noteq> [] \<and> trim out \<noteq> ''none''
      \<and> exec deviceId tuner ''debug'' = Some dbg \<and> match_dbg (trim dbg) = Some (g1, g2, g3)"
    for out dbg g1 g2 g3
  proof -
    define st where "st = (parseStatusLine (trim out))
                   \<lparr> ssDb := Some (fst (estimate (parseInt g1) (parseInt g2))),
                     snrDb := Some (snd (estimate (parseInt g1) (parseInt g2))),
                     debugRaw := Some (string_of_nat (parseInt g1) @ ''-''
                                        @ string_of_nat (parseInt g2) @ ''/'' @ g3) \<rparr>"
    have gs: "getTunerStatus exec deviceId tuner = Some st"
      unfolding st_def
      by (rule getTunerStatus_estimated
            [of exec deviceId tuner out dbg g1 g2 g3,
             OF h [THEN conjunct1] h [THEN conjunct2, THEN conjunct1]
                h [THEN conjunct2, THEN conjunct2, THEN conjunct1]
                h [THEN conjunct2, THEN conjunct2, THEN conjunct2, THEN conjunct1]
                h [THEN conjunct2, THEN conjunct2, THEN conjunct2, THEN conjunct2]])
    have s1: "ssDb st = Some (fst (estimate (parseInt g1) (parseInt g2)))"
      and s2: "snrDb st = Some (snd (estimate (parseInt g1) (parseInt g2)))"
      and s3: "debugRaw st = Some (string_of_nat (parseInt g1) @ ''-'' @ string_of_nat (parseInt g2)
                                @ ''/'' @ g3)"
      and s4: "no_estimate st = parseStatusLine (trim out)"
      by (simp_all add: st_def no_estimate_def parseStatusLine_def)
    have t1: "\<exists>k::int. ssDb st = Some (of_int k / 10)"
      unfolding s1 using c [of "parseInt g1" "parseInt g2"] by simp
    have t2: "\<exists>k::int. snrDb st = Some (of_int k / 10)"
      unfolding s2 using d [of "parseInt g1" "parseInt g2"] by simp
    have t3: "\<forall>x. snrDb st = Some x \<longrightarrow> \<bar>x - of_nat (parseInt g2) * (31 / 100)\<bar> \<le> 1 / 20"
      unfolding s2 using e [of "parseInt g1" "parseInt g2"] by simp
    have t4: "parseInt g1 = 86 \<longrightarrow> (\<exists>x. ssDb st = Some x \<and> - 50 \<le> x \<and> x \<le> - 40)"
      unfolding s1 using f [of "parseInt g2"] by simp
    have t5: "parseInt g2 = 0 \<longrightarrow> snrDb st = Some 0"
      unfolding s2 using g [of "parseInt g1"] by simp
    show ?thesis
      by (rule exI [of _ st])
         (intro conjI gs s1 [unfolded a] s2 [unfolded b] s3 t1 t2 t3 t4 t5 s4)
  qed
  have f': "- 50 \<le> fst (estimate 86 19)" "fst (estimate 86 19) \<le> - 40"
    using f [of 19] by simp_all
  show ?thesis
    apply (intro conjI allI impI)
    subgoal for out dbg g1 g2 g3 by (rule link)
    subgoal by (rule a)
    subgoal by (rule b)
    subgoal by (rule c)
    subgoal by (rule d)
    subgoal by (rule e)
    subgoal by (rule f'(1))
    subgoal by (rule f'(2))
    subgoal by (rule g)
    done
qed

theorem estimate_buckets_witness:
  "match_dbg (trim ''tun: dbg=86-19/-1817'') = Some (''86'', ''19'', ''-1817'')
   \<and> (\<exists>st. getTunerStatus strong_signal_tuner ''10.0.0.5'' 0 = Some st
          \<and> ssDb st = Some (- 47) \<and> snrDb st = Some (59 / 10)
          \<and> debugRaw st = Some ''86-19/-1817'')
   \<and> match_dbg (trim ''dbg=0-0/0'') = Some (''0'', ''0'', ''0'')
   \<and> (\<exists>st. getTunerStatus zero_counters_tuner ''10.0.0.5'' 0 = Some st \<and> snrDb st = Some 0)
   \<and> fst (estimate 86 19) = - 47 \<and> snd (estimate 0 0) = 0"
proof -
  have q: "strong_signal_tuner ''10.0.0.5'' 0 ''status'' = Some ''ch=8 lock=8vsb ss=71''"
    "strong_signal_tuner ''10.0.0.5'' 0 ''debug'' = Some ''tun: dbg=86-19/-1817''"
    "zero_counters_tuner ''10.0.0.5'' 0 ''status'' = Some ''ch=8 lock=8vsb ss=71''"
    "zero_counters_tuner ''10.0.0.5'' 0 ''debug'' = Some ''dbg=0-0/0''"
    by (simp_all add: strong_signal_tuner_def zero_counters_tuner_def answers_def)
  have t: "trim ''ch=8 lock=8vsb ss=71'' \<noteq> []" "trim ''ch=8 lock=8vsb ss=71'' \<noteq> ''none''"
    by (simp_all add: trim_def is_space_def)
  have m1: "match_dbg (trim ''tun: dbg=86-19/-1817'') = Some (''86'', ''19'', ''-1817'')"
    by code_simp
  have m2: "match_dbg (trim ''dbg=0-0/0'') = Some (''0'', ''0'', ''0'')"
    by code_simp
  have p: "parseInt ''86'' = 86" "parseInt ''19'' = 19" "parseInt ''0'' = 0"
    by (simp_all add: parseInt_def digit_val_def)
  have s: "string_of_nat 86 = ''86''" "string_of_nat 19 = ''19''"
    by code_simp+
  have r: "Math_round (589 / 10) = 59"
    unfolding Math_round_def by linarith
  note thm1 = estimate_buckets [of strong_signal_tuner "''10.0.0.5''" 0 86 19]
  note thm2 = estimate_buckets [of zero_counters_tuner "''10.0.0.5''" 0 0 0]
  from thm1 have
    "\<forall>out dbg g1 g2 g3.
      strong_signal_tuner ''10.0.0.5'' 0 ''status'' = Some out \<and> trim out \<noteq> [] \<and> trim out \<noteq> ''none''
      \<and> strong_signal_tuner ''10.0.0.5'' 0 ''debug'' = Some dbg \<and> match_dbg (trim dbg) = Some (g1, g2, g3) \<longrightarrow>
      (\<exists>st. getTunerStatus strong_signal_tuner ''10.0.0.5'' 0 = Some st
         \<and> ssDb st = Some (if parseInt g1 \<ge> 80 then - 40 - (100 - of_nat (parseInt g1)) / 2
                           else if parseInt g1 \<ge> 60 then - 50 - (80 - of_nat (parseInt g1)) / 2
                           else if parseInt g1 \<ge> 20 then - 60 - (60 - of_nat (parseInt g1)) / 2
                           else - 80 - (20 - of_nat (parseInt g1)) / 2)
         \<and> snrDb st = Some (if parseInt g2 = 0 then 0
                            else of_int (Math_round (of_nat (parseInt g2) * (31 / 100) * 10)) / 10)
         \<and> debugRaw st = Some (string_of_nat (parseInt g1) @ ''-'' @ string_of_nat (parseInt g2)
                                @ ''/'' @ g3))"
    by (elim conjE) (intro allI impI, drule spec, drule spec, drule spec, drule spec, drule spec,
        drule mp, assumption, elim exE conjE, rule exI, intro conjI, assumption+)
  from this [rule_format, of "''ch=8 lock=8vsb ss=71''" "''tun: dbg=86-19/-1817''" "''86''" "''19''" "''-1817''"]
  have w1: "\<exists>st. getTunerStatus strong_signal_tuner ''10.0.0.5'' 0 = Some st
          \<and> ssDb st = Some (- 47) \<and> snrDb st = Some (59 / 10)
          \<and> debugRaw st = Some ''86-19/-1817''"
    using q t m1 by (simp add: p s r)
  from thm2 have
    "\<forall>out dbg g1 g2 g3.
      zero_counters_tuner ''10.0.0.5'' 0 ''status'' = Some out \<and> trim out \<noteq> [] \<and> trim out \<noteq> ''none''
      \<and> zero_counters_tuner ''10.0.0.5'' 0 ''debug'' = Some dbg \<and> match_dbg (trim dbg) = Some (g1, g2, g3) \<longrightarrow>
      (\<exists>st. getTunerStatus zero_counters_tuner ''10.0.0.5'' 0 = Some st
         \<and> (parseInt g2 = 0 \<longrightarrow> snrDb st = Some 0))"
    by (elim conjE) (intro allI impI, drule spec, drule spec, drule spec, drule spec, drule spec,
        drule mp, assumption, elim exE conjE, rule exI, intro conjI, assumption+)
  from this [rule_format, of "''ch=8 lock=8vsb ss=71''" "''dbg=0-0/0''" "''0''" "''0''" "''0''"]
  have w2: "\<exists>st. getTunerStatus zero_counters_tuner ''10.0.0.5'' 0 = Some st \<and> snrDb st = Some 0"
    using q t m2 by (simp add: p)
  from thm1 have e1: "fst (estimate 86 19) = - 47" "snd (estimate 0 0) = 0"
    by simp_all
  show ?thesis by (intro conjI m1 w1 m2 w2 e1)
qed

end
